theory Spec2Isabelle
  imports Complex_Main
begin

section \<open>Python values, errors and strings\<close>

text \<open>
  The analyzer of \<^verbatim>\<open>src/src/analyzer.py\<close> is a class of pure methods over strings and
  lists of strings. A Python \<^verbatim>\<open>str\<close> is modelled as a HOL \<open>string\<close> holding ASCII
  text: the character classes below (\<^verbatim>\<open>str.lower\<close>, \<^verbatim>\<open>str.isspace\<close>, \<^verbatim>\<open>\s\<close>, \<^verbatim>\<open>\w\<close>,
  \<^verbatim>\<open>[A-Z]\<close>) are Python's on the code points below 128. Python's \<^verbatim>\<open>/\<close> on numbers is
  modelled as exact rational division that raises \<^verbatim>\<open>ZeroDivisionError\<close> on a zero
  divisor; the rounding of floats is not modelled.
\<close>

datatype error =
    ZeroDivisionError
  | TypeError nat string
    \<comment> \<open>\<^verbatim>\<open>sequence item i: expected str instance, T found\<close>, raised by \<^verbatim>\<open>str.join\<close>\<close>

text \<open>An element of the list handed to \<^verbatim>\<open>analyze_person\<close>: a string, or an object of
  another type (with the name of its type, which \<^verbatim>\<open>str.join\<close> reports).\<close>

datatype pyobj = Str string | NonStr string

definition truediv :: "rat \<Rightarrow> rat \<Rightarrow> error + rat" where
  "truediv a b = (if b = 0 then Inl ZeroDivisionError else Inr (a / b))"

definition is_space :: "char \<Rightarrow> bool" where
  \<comment> \<open>\<^verbatim>\<open>str.isspace\<close> and \<^verbatim>\<open>\s\<close> on ASCII: tab to carriage return, the four separators
     FS, GS, RS, US, and the space\<close>
  "is_space c = (c \<in> set [CHR 0x09, CHR 0x0A, CHR 0x0B, CHR 0x0C, CHR 0x0D,
                            CHR 0x1C, CHR 0x1D, CHR 0x1E, CHR 0x1F, CHR 0x20])"

definition is_AZ :: "char \<Rightarrow> bool" where
  "is_AZ c = (c \<in> set ''ABCDEFGHIJKLMNOPQRSTUVWXYZ'')"

definition is_az :: "char \<Rightarrow> bool" where
  "is_az c = (c \<in> set ''abcdefghijklmnopqrstuvwxyz'')"

definition is_digit :: "char \<Rightarrow> bool" where
  "is_digit c = (c \<in> set ''0123456789'')"

definition is_word :: "char \<Rightarrow> bool" where
  \<comment> \<open>the class \<^verbatim>\<open>\w\<close>\<close>
  "is_word c = (is_AZ c \<or> is_az c \<or> is_digit c \<or> c = CHR ''_'')"

definition lower_char :: "char \<Rightarrow> char" where
  "lower_char c =
     (case map_of (zip ''ABCDEFGHIJKLMNOPQRSTUVWXYZ'' ''abcdefghijklmnopqrstuvwxyz'') c of
        None \<Rightarrow> c | Some d \<Rightarrow> d)"

definition lower :: "string \<Rightarrow> string" where
  "lower s = map lower_char s"

definition isalpha :: "string \<Rightarrow> bool" where
  "isalpha s = (s \<noteq> [] \<and> list_all (\<lambda>c. is_AZ c \<or> is_az c) s)"

definition isupper :: "string \<Rightarrow> bool" where
  \<comment> \<open>at least one cased character, and no lowercase one\<close>
  "isupper s = (list_ex is_AZ s \<and> list_all (\<lambda>c. \<not> is_az c) s)"

definition strip :: "string \<Rightarrow> string" where
  "strip s = rev (dropWhile is_space (rev (dropWhile is_space s)))"

fun join :: "string \<Rightarrow> string list \<Rightarrow> string" where
  "join sep [] = []"
| "join sep [x] = x"
| "join sep (x # y # ys) = x @ sep @ join sep (y # ys)"

fun split_char :: "char \<Rightarrow> string \<Rightarrow> string list" where
  \<comment> \<open>\<^verbatim>\<open>s.split(c)\<close> for a one-character separator: never an empty list\<close>
  "split_char d [] = [[]]"
| "split_char d (c # cs) =
     (if c = d then [] # split_char d cs
      else (case split_char d cs of [] \<Rightarrow> [[c]] | l # ls \<Rightarrow> (c # l) # ls))"

fun split_ws_from :: "string \<Rightarrow> string \<Rightarrow> string list" where
  "split_ws_from cur [] = (if cur = [] then [] else [cur])"
| "split_ws_from cur (c # cs) =
     (if is_space c then (if cur = [] then split_ws_from [] cs else cur # split_ws_from [] cs)
      else split_ws_from (cur @ [c]) cs)"

definition split_ws :: "string \<Rightarrow> string list" where
  \<comment> \<open>\<^verbatim>\<open>s.split()\<close>: the maximal runs of non-whitespace\<close>
  "split_ws s = split_ws_from [] s"

fun count_from :: "string \<Rightarrow> nat \<Rightarrow> string \<Rightarrow> nat" where
  \<comment> \<open>scans left to right; after a match the next \<open>skip\<close> positions belong to it\<close>
  "count_from sub skip [] = 0"
| "count_from sub skip (c # cs) =
     (if 0 < skip then count_from sub (skip - 1) cs
      else if take (length sub) (c # cs) = sub then Suc (count_from sub (length sub - 1) cs)
      else count_from sub 0 cs)"

definition str_count :: "string \<Rightarrow> string \<Rightarrow> nat" where
  \<comment> \<open>\<^verbatim>\<open>s.count(sub)\<close>: the number of non-overlapping occurrences\<close>
  "str_count s sub = (if sub = [] then Suc (length s) else count_from sub 0 s)"

fun str_join :: "string \<Rightarrow> nat \<Rightarrow> pyobj list \<Rightarrow> error + string" where
  \<comment> \<open>\<^verbatim>\<open>sep.join(items)\<close>, \<open>i\<close> the index of the head of the list: the first element that
     is not a string raises \<^verbatim>\<open>TypeError\<close>\<close>
  "str_join sep i [] = Inr []"
| "str_join sep i (NonStr t # xs) = Inl (TypeError i t)"
| "str_join sep i [Str s] = Inr s"
| "str_join sep i (Str s # x # xs) =
     (case str_join sep (Suc i) (x # xs) of Inl e \<Rightarrow> Inl e | Inr r \<Rightarrow> Inr (s @ sep @ r))"

fun the_strs :: "pyobj list \<Rightarrow> string list" where
  \<comment> \<open>the strings of a list; all of it once \<open>str_join\<close> has returned\<close>
  "the_strs [] = []"
| "the_strs (Str s # xs) = s # the_strs xs"
| "the_strs (NonStr t # xs) = the_strs xs"

section \<open>\<^verbatim>\<open>collections.Counter\<close>\<close>

text \<open>
  A \<^verbatim>\<open>Counter\<close> is a \<^verbatim>\<open>dict\<close>, which keeps its keys in insertion order: an association
  list, a new key appended at the end and a known key counted where it stands.
  \<^verbatim>\<open>most_common(n)\<close> is \<^verbatim>\<open>heapq.nlargest(n, items, key=count)\<close>, documented as
  \<^verbatim>\<open>sorted(items, key=count, reverse=True)[:n]\<close>; Python's sort is stable, also with
  \<^verbatim>\<open>reverse=True\<close>, which is a stable sort on the negated count.
\<close>

fun counter_add :: "'a \<Rightarrow> ('a \<times> nat) list \<Rightarrow> ('a \<times> nat) list" where
  "counter_add w [] = [(w, 1)]"
| "counter_add w ((k, c) # r) = (if k = w then (k, Suc c) # r else (k, c) # counter_add w r)"

definition Counter :: "'a list \<Rightarrow> ('a \<times> nat) list" where
  "Counter ws = foldl (\<lambda>d w. counter_add w d) [] ws"

definition sorted_by_count_desc :: "('a \<times> nat) list \<Rightarrow> ('a \<times> nat) list" where
  \<comment> \<open>\<^verbatim>\<open>sorted(items, key=lambda x: x[1], reverse=True)\<close>\<close>
  "sorted_by_count_desc items = sort_key (\<lambda>x. - int (snd x)) items"

definition most_common :: "nat \<Rightarrow> 'a list \<Rightarrow> ('a \<times> nat) list" where
  "most_common n ws = take n (sorted_by_count_desc (Counter ws))"

definition dict_get :: "('a \<times> nat) list \<Rightarrow> 'a \<Rightarrow> nat" where
  \<comment> \<open>\<^verbatim>\<open>d.get(k, 0)\<close>, to read a tally\<close>
  "dict_get d k = (case map_of d k of None \<Rightarrow> 0 | Some c \<Rightarrow> c)"

definition slice :: "nat \<Rightarrow> nat \<Rightarrow> 'a list \<Rightarrow> 'a list" where
  \<comment> \<open>\<^verbatim>\<open>xs[i:j]\<close> for \<open>0 \<le> i \<le> j\<close>\<close>
  "slice i j xs = take (j - i) (drop i xs)"

definition last_n :: "nat \<Rightarrow> 'a list \<Rightarrow> 'a list" where
  \<comment> \<open>\<^verbatim>\<open>xs[-n:]\<close> for \<open>n > 0\<close>\<close>
  "last_n n xs = drop (length xs - n) xs"

definition and_then :: "error + 'a \<Rightarrow> ('a \<Rightarrow> error + 'b) \<Rightarrow> error + 'b" where
  \<comment> \<open>an exception raised by the first computation is the result\<close>
  "and_then m f = (case m of Inl e \<Rightarrow> Inl e | Inr v \<Rightarrow> f v)"

section \<open>The libraries\<close>

text \<open>
  NLTK's tokenizers and stopword list and textstat's two readability scores are
  libraries, not code of the repository: they are parameters of the model.
\<close>

record libs =
  word_tokenize :: "string \<Rightarrow> string list"
  sent_tokenize :: "string \<Rightarrow> string list"
  stopwords_english :: "string list"
  textstat_avg_sentence_length :: "string \<Rightarrow> rat"
  textstat_flesch_reading_ease :: "string \<Rightarrow> rat"

section \<open>The analyzer\<close>

record punctuation_rec =
  ellipsis_usage :: rat
  dash_usage :: rat
  parenthesis_usage :: rat
  semicolon_usage :: rat

record writing_style_rec =
  avg_sentence_length :: rat
  reading_ease :: rat
  exclamation_usage :: rat
  question_usage :: rat
  uppercase_ratio :: rat
  punctuation_style :: punctuation_rec

record diversity_rec =
  total_words :: nat
  unique_words :: nat
  lexical_diversity :: rat
  vocabulary_richness :: rat

record emphasis_rec =
  all_caps :: nat
  repetition :: nat
  very_really :: nat
  absolutely_definitely :: nat

record fingerprint_rec =
  starter_phrases :: "(string \<times> nat) list"
  closing_phrases :: "(string \<times> nat) list"
  transition_words :: "(string \<times> nat) list"
  emphasis_patterns :: emphasis_rec

record email_patterns_rec =
  avg_email_length :: rat
  greeting_style :: "(string \<times> nat) list"
  signature_style :: "(string \<times> nat) list"

record analysis =
  person :: string
  total_emails :: nat
  comfort_words :: "(string \<times> nat) list"
  favorite_phrases :: "(string \<times> nat) list"
  writing_style :: writing_style_rec
  vocabulary_diversity :: diversity_rec
  linguistic_fingerprint :: fingerprint_rec
  email_patterns :: email_patterns_rec

definition corporate_stopwords :: "string list" where
  "corporate_stopwords =
     [''email'', ''sent'', ''subject'', ''from'', ''to'', ''cc'', ''bcc'',
      ''forwarded'', ''original'', ''message'', ''wrote'', ''date'']"

definition stop_words :: "libs \<Rightarrow> string set" where
  "stop_words L = set (stopwords_english L) \<union> set corporate_stopwords"

subsection \<open>Comfort words and favorite phrases\<close>

definition meaningful_words :: "libs \<Rightarrow> string \<Rightarrow> string list" where
  \<comment> \<open>the list \<^verbatim>\<open>meaningful_words\<close> of \<^verbatim>\<open>_get_comfort_words\<close>\<close>
  "meaningful_words L txt =
     (let words = word_tokenize L (lower txt)
      in filter (\<lambda>word. isalpha word \<and> word \<notin> stop_words L \<and> 3 < length word) words)"

definition get_comfort_words :: "libs \<Rightarrow> string \<Rightarrow> nat \<Rightarrow> (string \<times> nat) list" where
  "get_comfort_words L txt top_n = most_common top_n (meaningful_words L txt)"

definition substance :: "libs \<Rightarrow> string list \<Rightarrow> bool" where
  \<comment> \<open>the filter of \<^verbatim>\<open>_get_favorite_phrases\<close> on a window\<close>
  "substance L window =
     list_all (\<lambda>word. word \<notin> stop_words L \<or> word \<in> set [''not'', ''very'', ''really'']) window"

definition email_phrases :: "libs \<Rightarrow> nat \<Rightarrow> string \<Rightarrow> string list" where
  \<comment> \<open>what the inner loop appends for one email: \<open>i\<close> runs over
     \<^verbatim>\<open>range(len(words) - n_gram + 1)\<close>, which is empty when the difference is negative\<close>
  "email_phrases L n_gram email =
     (let words = word_tokenize L (lower email)
      in concat (map (\<lambda>i. let window = slice i (i + n_gram) words
                            in if substance L window then [join '' '' window] else [])
                     [0 ..< length words + 1 - n_gram]))"

definition all_phrases :: "libs \<Rightarrow> string list \<Rightarrow> nat \<Rightarrow> string list" where
  \<comment> \<open>the list \<^verbatim>\<open>all_phrases\<close> when the outer loop has ended\<close>
  "all_phrases L emails n_gram = concat (map (email_phrases L n_gram) emails)"

definition get_favorite_phrases :: "libs \<Rightarrow> string list \<Rightarrow> nat \<Rightarrow> (string \<times> nat) list" where
  "get_favorite_phrases L emails n_gram = most_common 20 (all_phrases L emails n_gram)"

subsection \<open>Writing style\<close>

definition em_dash_count :: "string \<Rightarrow> nat" where
  \<comment> \<open>the second summand of \<^verbatim>\<open>dash_usage\<close> counts the em dash U+2014, which is
     not an ASCII character\<close>
  "em_dash_count txt = 0"

definition per_1000 :: "nat \<Rightarrow> nat \<Rightarrow> error + rat" where
  \<comment> \<open>\<^verbatim>\<open>count / total_chars * 1000\<close>\<close>
  "per_1000 cnt total_chars =
     and_then (truediv (of_nat cnt) (of_nat total_chars)) (\<lambda>q. Inr (q * 1000))"

definition analyze_punctuation :: "string \<Rightarrow> error + punctuation_rec" where
  "analyze_punctuation txt =
     (let total_chars = length txt in
      and_then (per_1000 (str_count txt ''...'') total_chars) (\<lambda>e.
      and_then (per_1000 (str_count txt ''-'' + em_dash_count txt) total_chars) (\<lambda>d.
      and_then (per_1000 (str_count txt ''('') total_chars) (\<lambda>p.
      and_then (per_1000 (str_count txt '';'') total_chars) (\<lambda>s.
        Inr \<lparr>ellipsis_usage = e, dash_usage = d,
             parenthesis_usage = p, semicolon_usage = s\<rparr>)))))"

definition analyze_writing_style :: "libs \<Rightarrow> string \<Rightarrow> error + writing_style_rec" where
  \<comment> \<open>the entries of the dict display are evaluated in the order written\<close>
  "analyze_writing_style L txt =
     (let sentences = sent_tokenize L txt;
          words = word_tokenize L txt;
          asl = textstat_avg_sentence_length L txt;
          fre = textstat_flesch_reading_ease L txt in
      and_then (truediv (of_nat (str_count txt ''!'')) (of_nat (length sentences))) (\<lambda>ex.
      and_then (truediv (of_nat (str_count txt ''?'')) (of_nat (length sentences))) (\<lambda>qu.
      and_then (truediv (of_nat (length (filter isupper words))) (of_nat (length words))) (\<lambda>up.
      and_then (analyze_punctuation txt) (\<lambda>pu.
        Inr \<lparr>avg_sentence_length = asl, reading_ease = fre,
             exclamation_usage = ex, question_usage = qu,
             uppercase_ratio = up, punctuation_style = pu\<rparr>)))))"

subsection \<open>Vocabulary diversity\<close>

definition chunk_size :: nat where
  "chunk_size = 1000"

definition chunk_ttr :: "string list \<Rightarrow> rat" where
  \<comment> \<open>\<^verbatim>\<open>len(set(chunk)) / len(chunk)\<close>, reached only for a chunk of more than 100 words\<close>
  "chunk_ttr chunk = of_nat (card (set chunk)) / of_nat (length chunk)"

function ttr_loop :: "string list \<Rightarrow> nat \<Rightarrow> rat list \<Rightarrow> rat list" where
  \<comment> \<open>\<^verbatim>\<open>for i in range(0, len(words), chunk_size)\<close>, from index \<open>i\<close> on\<close>
  "ttr_loop words i ttrs =
     (if i < length words then
        (let chunk = slice i (i + chunk_size) words
         in ttr_loop words (i + chunk_size)
              (if 100 < length chunk then ttrs @ [chunk_ttr chunk] else ttrs))
      else ttrs)"
  by pat_completeness auto
termination
  by (relation "measure (\<lambda>(words, i, ttrs). length words - i)") (auto simp: chunk_size_def)

definition calculate_ttr :: "string list \<Rightarrow> rat" where
  "calculate_ttr words =
     (if words = [] then 0
      else (let ttrs = ttr_loop words 0 []
            in if ttrs \<noteq> [] then sum_list ttrs / of_nat (length ttrs) else 0))"

definition calculate_diversity :: "libs \<Rightarrow> string \<Rightarrow> diversity_rec" where
  "calculate_diversity L txt =
     (let words = word_tokenize L (lower txt);
          meaningful_words = filter (\<lambda>w. isalpha w \<and> w \<notin> stop_words L) words;
          unique_words = set meaningful_words
      in \<lparr>total_words = length meaningful_words,
          unique_words = card unique_words,
          lexical_diversity =
            (if meaningful_words \<noteq> []
             then of_nat (card unique_words) / of_nat (length meaningful_words) else 0),
          vocabulary_richness = calculate_ttr meaningful_words\<rparr>)"

subsection \<open>Linguistic fingerprint\<close>

definition starters :: "libs \<Rightarrow> string list \<Rightarrow> string list" where
  \<comment> \<open>the list \<^verbatim>\<open>starters\<close> when the loop has ended\<close>
  "starters L emails =
     concat (map (\<lambda>email. case sent_tokenize L email of
                             [] \<Rightarrow> [] | fst_sentence # _ \<Rightarrow> [take 50 fst_sentence])
                 emails)"

definition get_email_starters :: "libs \<Rightarrow> string list \<Rightarrow> (string \<times> nat) list" where
  "get_email_starters L emails = most_common 5 (starters L emails)"

definition closings :: "libs \<Rightarrow> string list \<Rightarrow> string list" where
  \<comment> \<open>the list \<^verbatim>\<open>closings\<close> when the loop has ended\<close>
  "closings L emails =
     concat (map (\<lambda>email. let sentences = sent_tokenize L email
                           in if sentences \<noteq> [] then [last_n 50 (last sentences)] else [])
                 emails)"

definition get_email_closings :: "libs \<Rightarrow> string list \<Rightarrow> (string \<times> nat) list" where
  "get_email_closings L emails = most_common 5 (closings L emails)"

definition transitions :: "string list" where
  "transitions =
     [''however'', ''therefore'', ''moreover'', ''furthermore'',
      ''nevertheless'', ''consequently'', ''additionally'',
      ''meanwhile'', ''otherwise'', ''accordingly'']"

definition usage :: "string list \<Rightarrow> (string \<times> nat) list" where
  \<comment> \<open>the dict \<^verbatim>\<open>usage\<close>: the ten keys are distinct, so the comprehension has one item
     for each, in the order of the list\<close>
  "usage emails =
     (let txt = lower (join '' '' emails)
      in map (\<lambda>word. (word, str_count txt word)) transitions)"

definition get_transition_preferences :: "string list \<Rightarrow> (string \<times> nat) list" where
  \<comment> \<open>the final \<^verbatim>\<open>dict(...)\<close> keeps the five sorted pairs in their order\<close>
  "get_transition_preferences emails = take 5 (sorted_by_count_desc (usage emails))"

fun word_runs_from :: "string \<Rightarrow> string \<Rightarrow> string list" where
  "word_runs_from cur [] = (if cur = [] then [] else [cur])"
| "word_runs_from cur (c # cs) =
     (if is_word c then word_runs_from (cur @ [c]) cs
      else if cur = [] then word_runs_from [] cs else cur # word_runs_from [] cs)"

definition all_caps_matches :: "string \<Rightarrow> string list" where
  \<comment> \<open>\<^verbatim>\<open>re.findall(r'\b[A-Z]{3,}\b', email)\<close>: between two word boundaries with only
     \<^verbatim>\<open>[A-Z]\<close> in between lies a maximal run of word characters, so the matches are the
     maximal runs of \<^verbatim>\<open>\w\<close> that are three or more capital letters\<close>
  "all_caps_matches email =
     filter (\<lambda>run. 3 \<le> length run \<and> list_all is_AZ run) (word_runs_from [] email)"

definition get_emphasis_patterns :: "string list \<Rightarrow> emphasis_rec" where
  "get_emphasis_patterns emails =
     foldl (\<lambda>patterns email.
              patterns\<lparr>all_caps := all_caps patterns + length (all_caps_matches email),
                       very_really := very_really patterns
                          + (str_count (lower email) ''very'' + str_count (lower email) ''really''),
                       absolutely_definitely := absolutely_definitely patterns
                          + (str_count (lower email) ''absolutely''
                             + str_count (lower email) ''definitely'')\<rparr>)
           \<lparr>all_caps = 0, repetition = 0, very_really = 0, absolutely_definitely = 0\<rparr>
           emails"

definition create_fingerprint :: "libs \<Rightarrow> string list \<Rightarrow> fingerprint_rec" where
  "create_fingerprint L emails =
     \<lparr>starter_phrases = get_email_starters L emails,
      closing_phrases = get_email_closings L emails,
      transition_words = get_transition_preferences emails,
      emphasis_patterns = get_emphasis_patterns emails\<rparr>"

subsection \<open>Email patterns\<close>

text \<open>
  The patterns of the analyzer are sequences of three kinds of items: an alternation of
  literals \<^verbatim>\<open>(a|b|c)\<close>, and the repetitions \<^verbatim>\<open>C*\<close> and \<^verbatim>\<open>C+\<close> of a character class.
  \<open>rx_match\<close> tells whether some prefix of the string matches the sequence, trying every
  length of a repetition as a backtracking matcher does. A pattern is anchored when it
  starts with \<^verbatim>\<open>^\<close>; no pattern is compiled with \<^verbatim>\<open>re.MULTILINE\<close>, so the anchor is the
  start of the string.
\<close>

datatype rx_item = Lits "string list" | Many0 "char \<Rightarrow> bool" | Many1 "char \<Rightarrow> bool"

datatype regex = Regex bool "rx_item list"

fun rx_match :: "rx_item list \<Rightarrow> string \<Rightarrow> bool" where
  "rx_match [] s = True"
| "rx_match (Lits ls # r) s =
     list_ex (\<lambda>l. take (length l) s = l \<and> rx_match r (drop (length l) s)) ls"
| "rx_match (Many0 C # r) s =
     list_ex (\<lambda>k. rx_match r (drop k s)) [0 ..< Suc (length (takeWhile C s))]"
| "rx_match (Many1 C # r) s =
     list_ex (\<lambda>k. rx_match r (drop k s)) [1 ..< Suc (length (takeWhile C s))]"

fun re_match :: "regex \<Rightarrow> string \<Rightarrow> bool" where
  \<comment> \<open>\<^verbatim>\<open>re.match(pattern, s)\<close> is not \<^verbatim>\<open>None\<close>\<close>
  "re_match (Regex anchored items) s = rx_match items s"

fun re_search :: "regex \<Rightarrow> string \<Rightarrow> bool" where
  \<comment> \<open>\<^verbatim>\<open>re.search(pattern, s)\<close> is not \<^verbatim>\<open>None\<close>\<close>
  "re_search (Regex anchored items) s =
     (if anchored then rx_match items s
      else list_ex (\<lambda>i. rx_match items (drop i s)) [0 ..< Suc (length s)])"

definition greeting_patterns :: "(regex \<times> string) list" where
  "greeting_patterns =
     [(Regex True [Lits [''hi'', ''hello'', ''hey''], Many1 is_space, Many1 is_word], ''informal''),
      (Regex True [Lits [''dear'', ''greetings''], Many1 is_space, Many1 is_word], ''formal''),
      (Regex True [Lits [''good''], Many1 is_space, Lits [''morning'', ''afternoon'', ''evening'']],
         ''time_based''),
      (Regex True [Many1 is_word, Lits ['','']], ''name_only'')]"

definition signature_patterns :: "(regex \<times> string) list" where
  "signature_patterns =
     [(Regex False [Lits [''best'', ''regards'', ''sincerely'']], ''formal''),
      (Regex False [Lits [''thanks'', ''thx'', ''ty'']], ''grateful''),
      (Regex False [Lits [''cheers'', ''talk soon'']], ''casual''),
      (Regex True [Lits [''-''], Many0 is_space, Many1 is_word], ''minimal'')]"

fun greeting_scan :: "(regex \<times> string) list \<Rightarrow> string \<Rightarrow> (string \<times> nat) list \<Rightarrow> (string \<times> nat) list" where
  \<comment> \<open>the inner loop of \<^verbatim>\<open>_analyze_greetings\<close>, which breaks at the first match\<close>
  "greeting_scan [] email_lower greetings = greetings"
| "greeting_scan ((pattern, style) # ps) email_lower greetings =
     (if re_match pattern email_lower then counter_add style greetings
      else greeting_scan ps email_lower greetings)"

definition analyze_greetings :: "string list \<Rightarrow> (string \<times> nat) list" where
  "analyze_greetings emails =
     foldl (\<lambda>greetings email. greeting_scan greeting_patterns (strip (lower email)) greetings)
           [] emails"

fun signature_scan :: "(regex \<times> string) list \<Rightarrow> string \<Rightarrow> (string \<times> nat) list \<Rightarrow> (string \<times> nat) list" where
  \<comment> \<open>the inner loop of \<^verbatim>\<open>_analyze_signatures\<close>, which goes through every pattern\<close>
  "signature_scan [] last_lines signatures = signatures"
| "signature_scan ((pattern, style) # ps) last_lines signatures =
     signature_scan ps last_lines
       (if re_search pattern last_lines then counter_add style signatures else signatures)"

definition signature_lines :: "string \<Rightarrow> string" where
  \<comment> \<open>\<^verbatim>\<open>last_lines\<close> of an email\<close>
  "signature_lines email =
     (let lines = split_char (CHR 0x0A) (strip email)
      in lower (join '' '' (last_n 3 lines)))"

definition analyze_signatures :: "string list \<Rightarrow> (string \<times> nat) list" where
  "analyze_signatures emails =
     foldl (\<lambda>signatures email. signature_scan signature_patterns (signature_lines email) signatures)
           [] emails"

definition analyze_email_patterns :: "string list \<Rightarrow> error + email_patterns_rec" where
  "analyze_email_patterns emails =
     and_then (truediv (of_nat (sum_list (map (\<lambda>e. length (split_ws e)) emails)))
                       (of_nat (length emails))) (\<lambda>avg.
        Inr \<lparr>avg_email_length = avg,
             greeting_style = analyze_greetings emails,
             signature_style = analyze_signatures emails\<rparr>)"

subsection \<open>The whole analysis\<close>

definition analyze_person :: "libs \<Rightarrow> pyobj list \<Rightarrow> string \<Rightarrow> error + analysis" where
  \<comment> \<open>the first statement joins the emails; the entries of the dict display follow in the
     order written, and the two that can raise are \<^verbatim>\<open>writing_style\<close> and \<^verbatim>\<open>email_patterns\<close>\<close>
  "analyze_person L emails person_name =
     and_then (str_join '' '' 0 emails) (\<lambda>full_text.
       let es = the_strs emails;
           cw = get_comfort_words L full_text 30;
           fp = get_favorite_phrases L es 3 in
       and_then (analyze_writing_style L full_text) (\<lambda>ws.
         let vd = calculate_diversity L full_text;
             lf = create_fingerprint L es in
         and_then (analyze_email_patterns es) (\<lambda>ep.
           Inr \<lparr>person = person_name,
                total_emails = length emails,
                comfort_words = cw,
                favorite_phrases = fp,
                writing_style = ws,
                vocabulary_diversity = vd,
                linguistic_fingerprint = lf,
                email_patterns = ep\<rparr>)))"

section \<open>A plain instance of the libraries\<close>

text \<open>
  To run the analyzer on a concrete input the libraries need values. \<open>plain_libs\<close>
  splits words at whitespace, takes a text that is not blank as one sentence, and has a
  short excerpt of NLTK's English stopword list; the two readability scores are
  placeholders, and no statement depends on them. On the empty text, and on words
  without punctuation separated by single spaces, NLTK's \<^verbatim>\<open>word_tokenize\<close> and
  \<^verbatim>\<open>sent_tokenize\<close> return these lists.
\<close>

definition plain_libs :: libs where
  "plain_libs =
     \<lparr>word_tokenize = split_ws,
      sent_tokenize = (\<lambda>t. if strip t = [] then [] else [strip t]),
      stopwords_english = [''i'', ''you'', ''the'', ''a'', ''is'', ''and'', ''of'',
                           ''not'', ''very'', ''really''],
      textstat_avg_sentence_length = (\<lambda>t. of_nat (length (split_ws t))),
      textstat_flesch_reading_ease = (\<lambda>t. 0)\<rparr>"

section \<open>Notions used in the statements\<close>

fun is_str :: "pyobj \<Rightarrow> bool" where
  "is_str (Str s) = True"
| "is_str (NonStr t) = False"

function chunks :: "nat \<Rightarrow> 'a list \<Rightarrow> 'a list list" where
  \<comment> \<open>the consecutive chunks of \<open>n\<close> elements of a list, the last one possibly shorter\<close>
  "chunks n xs = (if n = 0 \<or> xs = [] then [] else take n xs # chunks n (drop n xs))"
  by pat_completeness auto
termination
  by (relation "measure (\<lambda>(n, xs). length xs)") auto

definition mean :: "rat list \<Rightarrow> rat" where
  "mean rs = (if rs = [] then 0 else sum_list rs / of_nat (length rs))"

definition spec_vocabulary_richness :: "string list \<Rightarrow> rat" where
  \<comment> \<open>the specification's wording of \<^verbatim>\<open>vocabulary_richness\<close>: chunks of 1000 words, a
     chunk kept when it has at least 100 words, the mean of the type-token ratios of the
     chunks kept, 0 when there is none\<close>
  "spec_vocabulary_richness words =
     mean (map chunk_ttr (filter (\<lambda>chunk. 100 \<le> length chunk) (chunks 1000 words)))"

definition first_pos :: "'a list \<Rightarrow> 'a \<Rightarrow> nat" where
  \<comment> \<open>where an element first occurs in a list (the length of the list when it does not)\<close>
  "first_pos ws w = length (takeWhile (\<lambda>x. x \<noteq> w) ws)"

definition count_then_first :: "('a \<Rightarrow> nat) \<Rightarrow> ('a \<times> nat) \<Rightarrow> ('a \<times> nat) \<Rightarrow> bool" where
  \<comment> \<open>the order of two tallied items: the higher count first, and of two equal counts the
     item of the lower position\<close>
  "count_then_first pos a b =
     (snd b < snd a \<or> (snd a = snd b \<and> pos (fst a) < pos (fst b)))"

fun windows3 :: "'a list \<Rightarrow> 'a list list" where
  \<comment> \<open>a window of three consecutive elements slid across a list\<close>
  "windows3 (a # b # c # r) = [a, b, c] # windows3 (b # c # r)"
| "windows3 r = []"

definition first_match :: "(regex \<times> string) list \<Rightarrow> string \<Rightarrow> string list" where
  \<comment> \<open>the category of the first pattern of an ordered list that matches, if any\<close>
  "first_match ps s = take 1 (map snd (filter (\<lambda>(p, style). re_match p s) ps))"

definition all_matches :: "(regex \<times> string) list \<Rightarrow> string \<Rightarrow> string list" where
  \<comment> \<open>the categories of all the patterns that are found\<close>
  "all_matches ps s = map snd (filter (\<lambda>(p, style). re_search p s) ps)"

fun starts_dash_word :: "string \<Rightarrow> bool" where
  \<comment> \<open>a dash, then whitespace or none, then a word character, at the start of the string\<close>
  "starts_dash_word [] = False"
| "starts_dash_word (c # rest) =
     (c = CHR ''-'' \<and> (case dropWhile is_space rest of [] \<Rightarrow> False | d # _ \<Rightarrow> is_word d))"

fun last_three :: "'a list \<Rightarrow> 'a list" where
  \<comment> \<open>the last three elements of a list, or all of them when there are fewer\<close>
  "last_three (a # b # c # d # r) = last_three (b # c # d # r)"
| "last_three r = r"

definition spec_signature_lines :: "string \<Rightarrow> string" where
  \<comment> \<open>the specification's wording: the last three lines of a message, joined and
     lowercased\<close>
  "spec_signature_lines email = lower (join '' '' (last_three (split_char (CHR 0x0A) email)))"

definition spec_analyze_signatures :: "string list \<Rightarrow> (string \<times> nat) list" where
  \<comment> \<open>the specification's wording: every category whose pattern is found in those lines
     is counted\<close>
  "spec_analyze_signatures emails =
     Counter (concat (map (\<lambda>e. all_matches signature_patterns (spec_signature_lines e)) emails))"

section \<open>Degenerate and malformed inputs\<close>

declare chunks.simps [simp del]
declare ttr_loop.simps [simp del]

lemma writing_style_empty_text: "analyze_writing_style L [] = Inl ZeroDivisionError"
  by (simp add: analyze_writing_style_def analyze_punctuation_def per_1000_def and_then_def
      truediv_def Let_def split: sum.splits)

text \<open>
  Claim C1 says that \<^verbatim>\<open>analyze_person\<close> on an empty list of messages returns a record
  with \<^verbatim>\<open>total_emails == 0\<close>, no comfort words and every ratio 0, and raises nothing.
  The code raises: whatever the libraries return on the empty text, one of the
  unguarded divisions of \<^verbatim>\<open>_analyze_writing_style\<close> (by the number of sentences, of
  tokens or of characters) divides by zero, and no record is returned.
\<close>

theorem analyze_person_no_emails:
  "analyze_person L [] person_name = Inl ZeroDivisionError"
  by (simp add: analyze_person_def and_then_def writing_style_empty_text)

text \<open>
  Claim C2 says that the ratios of the writing-style analysis fall back to 0 when their
  divisor is 0. The code divides unguarded: with no sentence, no token or no character,
  \<^verbatim>\<open>_analyze_writing_style\<close> raises \<^verbatim>\<open>ZeroDivisionError\<close>, and so does
  \<^verbatim>\<open>_analyze_punctuation\<close> on the empty text.
\<close>

theorem writing_style_divides_unguarded:
  assumes "sent_tokenize L txt = [] \<or> word_tokenize L txt = [] \<or> txt = []"
  shows "analyze_writing_style L txt = Inl ZeroDivisionError
         \<and> analyze_punctuation [] = Inl ZeroDivisionError"
  using assms
  by (auto simp add: analyze_writing_style_def analyze_punctuation_def per_1000_def and_then_def
      truediv_def Let_def split: sum.splits)

theorem writing_style_divides_unguarded_witness:
  "sent_tokenize plain_libs [] = []
   \<and> analyze_writing_style plain_libs [] = Inl ZeroDivisionError
   \<and> analyze_punctuation [] = Inl ZeroDivisionError"
proof -
  have h: "sent_tokenize plain_libs [] = []"
    by (simp add: plain_libs_def strip_def)
  then have "sent_tokenize plain_libs [] = [] \<or> word_tokenize plain_libs [] = [] \<or> [] = ([] :: string)"
    by simp
  from writing_style_divides_unguarded[OF this] h show ?thesis by simp
qed

lemma str_join_first_nonstr:
  "\<not> list_all is_str xs \<Longrightarrow>
   \<exists>i t. i < length xs \<and> xs ! i = NonStr t \<and> (\<forall>j<i. is_str (xs ! j))
        \<and> str_join sep k xs = Inl (TypeError (k + i) t)"
proof (induction sep k xs rule: str_join.induct)
  case (1 sep i)
  then show ?case by simp
next
  case (2 sep i t xs)
  show ?case by (rule exI[of _ 0]) simp
next
  case (3 sep i s)
  then show ?case by simp
next
  case (4 sep i s x xs)
  then have "\<not> list_all is_str (x # xs)" by simp
  from 4(1)[OF this] obtain j t where j: "j < length (x # xs)" "(x # xs) ! j = NonStr t"
    "\<forall>m<j. is_str ((x # xs) ! m)" "str_join sep (Suc i) (x # xs) = Inl (TypeError (Suc i + j) t)"
    by blast
  show ?case
  proof (intro exI[of _ "Suc j"] exI[of _ t] conjI)
    show "Suc j < length (Str s # x # xs)" using j(1) by simp
    show "(Str s # x # xs) ! Suc j = NonStr t" using j(2) by simp
    show "\<forall>m<Suc j. is_str ((Str s # x # xs) ! m)"
    proof (intro allI impI)
      fix m assume "m < Suc j"
      then show "is_str ((Str s # x # xs) ! m)" using j(3) by (cases m) auto
    qed
    show "str_join sep i (Str s # x # xs) = Inl (TypeError (i + Suc j) t)"
      using j(4) by simp
  qed
qed

text \<open>
  Claim C3: when the list of messages has an element that is not a string,
  \<^verbatim>\<open>analyze_person\<close> fails before any metric is computed, with an error that describes
  the offending input. The first statement of the method joins the messages, and
  \<^verbatim>\<open>str.join\<close> raises \<^verbatim>\<open>TypeError: sequence item i: expected str instance, T found\<close>
  for the first element \<open>i\<close> that is not a string, of type \<open>T\<close>; the error is the same
  for every tokenizer, stopword list and person name, since none of them has been used.
\<close>

theorem analyze_person_non_string:
  assumes "\<not> list_all is_str emails"
  shows "\<exists>i t. i < length emails \<and> emails ! i = NonStr t \<and> (\<forall>j<i. is_str (emails ! j))
           \<and> (\<forall>L person_name. analyze_person L emails person_name = Inl (TypeError i t))"
proof -
  from str_join_first_nonstr[OF assms, of "'' ''" 0]
  obtain i t where "i < length emails" "emails ! i = NonStr t" "\<forall>j<i. is_str (emails ! j)"
    "str_join '' '' 0 emails = Inl (TypeError i t)" by auto
  then show ?thesis by (auto simp: analyze_person_def and_then_def)
qed

theorem analyze_person_non_string_witness:
  "\<not> list_all is_str [Str ''hello'', NonStr ''int'']
   \<and> analyze_person plain_libs [Str ''hello'', NonStr ''int''] ''p'' = Inl (TypeError 1 ''int'')"
proof -
  have h: "\<not> list_all is_str [Str ''hello'', NonStr ''int'']" by simp
  from analyze_person_non_string[OF h] obtain i t where
    a: "i < length [Str ''hello'', NonStr ''int'']" "[Str ''hello'', NonStr ''int''] ! i = NonStr t"
    and b: "\<forall>L person_name.
              analyze_person L [Str ''hello'', NonStr ''int''] person_name = Inl (TypeError i t)"
    by blast
  from a have "i = 1 \<and> t = ''int''" by (cases i) auto
  with b h show ?thesis by simp
qed

section \<open>Vocabulary richness\<close>

lemma ttr_loop_chunks:
  "ttr_loop words i ttrs =
     ttrs @ map chunk_ttr (filter (\<lambda>chunk. 100 < length chunk) (chunks chunk_size (drop i words)))"
proof (induction words i ttrs rule: ttr_loop.induct)
  case (1 words i ttrs)
  show ?case
  proof (cases "i < length words")
    case True
    have cs: "chunk_size \<noteq> 0" by (simp add: chunk_size_def)
    have ne: "drop i words \<noteq> []" using True by simp
    have ch: "chunks chunk_size (drop i words) =
        slice i (i + chunk_size) words # chunks chunk_size (drop (i + chunk_size) words)"
      using cs ne by (subst chunks.simps) (simp add: slice_def add.commute)
    show ?thesis
      using True 1[OF True refl]
      by (subst ttr_loop.simps) (simp add: ch Let_def)
  next
    case False
    then show ?thesis
      by (subst ttr_loop.simps, subst chunks.simps) simp
  qed
qed

lemma concat_chunks: "0 < n \<Longrightarrow> concat (chunks n xs) = xs"
proof (induction n xs rule: chunks.induct)
  case (1 n xs)
  then show ?case by (subst chunks.simps) auto
qed

lemma chunks_lengths:
  "c \<in> set (chunks n xs) \<Longrightarrow> 0 < length c \<and> length c \<le> n \<and> length c \<le> length xs"
proof (induction n xs rule: chunks.induct)
  case (1 n xs)
  show ?case
  proof (cases "n = 0 \<or> xs = []")
    case True
    with 1(2) show ?thesis by (subst (asm) chunks.simps) simp
  next
    case False
    then have "chunks n xs = take n xs # chunks n (drop n xs)"
      by (subst chunks.simps) simp
    with 1(2) have "c = take n xs \<or> c \<in> set (chunks n (drop n xs))" by simp
    then show ?thesis
    proof
      assume "c = take n xs"
      with False show ?thesis by simp
    next
      assume "c \<in> set (chunks n (drop n xs))"
      from 1(1)[OF False this] have "0 < length c" "length c \<le> n" "length c \<le> length xs - n"
        by simp_all
      then show ?thesis by linarith
    qed
  qed
qed

lemma chunks_butlast_full:
  "c \<in> set (butlast (chunks n xs)) \<Longrightarrow> length c = n"
proof (induction n xs rule: chunks.induct)
  case (1 n xs)
  show ?case
  proof (cases "n = 0 \<or> xs = []")
    case True
    with 1(2) show ?thesis by (subst (asm) chunks.simps) simp
  next
    case False
    then have eq: "chunks n xs = take n xs # chunks n (drop n xs)"
      by (subst chunks.simps) simp
    show ?thesis
    proof (cases "chunks n (drop n xs) = []")
      case True
      with 1(2) eq show ?thesis by simp
    next
      case ne: False
      then have "drop n xs \<noteq> []" by (subst (asm) chunks.simps) (auto split: if_splits)
      then have "n \<le> length xs" by simp
      with 1(2) eq ne 1(1)[OF False] show ?thesis by auto
    qed
  qed
qed

text \<open>
  Claim C4 says that \<^verbatim>\<open>vocabulary_richness\<close> is the mean type-token ratio of the
  consecutive chunks of 1000 words, a chunk counting when it has at least 100 words, so
  that a chunk of exactly 100 words is retained. The guard of the code is
  \<^verbatim>\<open>len(chunk) > 100\<close>: a hundred words give 0, where the claim gives their type-token
  ratio.
\<close>

theorem calculate_ttr_hundred_words_counterexample:
  "calculate_ttr (replicate 100 ''w'') = 0
   \<and> spec_vocabulary_richness (replicate 100 ''w'') = 1 / 100"
  by code_simp

text \<open>
  Claim C4 as amended: \<^verbatim>\<open>vocabulary_richness\<close> is the mean of the type-token ratios of
  the consecutive chunks of 1000 words that have more than 100 words, and 0 when no
  chunk has. The chunks make up the word sequence, all but the last have exactly 1000
  words, so only the last one can be left out; it is left out when it has 100 words or
  fewer, and a sequence of at most 100 words gives 0.
\<close>

theorem calculate_ttr_chunk_mean:
  "calculate_ttr words =
     mean (map chunk_ttr (filter (\<lambda>chunk. 100 < length chunk) (chunks chunk_size words)))
   \<and> chunk_size = 1000
   \<and> concat (chunks chunk_size words) = words
   \<and> (\<forall>c \<in> set (butlast (chunks chunk_size words)). length c = chunk_size)
   \<and> (\<forall>c \<in> set (chunks chunk_size words). 0 < length c \<and> length c \<le> chunk_size)
   \<and> (length words \<le> 100 \<longrightarrow> calculate_ttr words = 0)"
proof -
  have "chunks chunk_size [] = ([] :: string list list)" by (subst chunks.simps) simp
  then have eq: "calculate_ttr words =
     mean (map chunk_ttr (filter (\<lambda>chunk. 100 < length chunk) (chunks chunk_size words)))"
    by (simp add: calculate_ttr_def ttr_loop_chunks mean_def Let_def)
  have cat: "concat (chunks chunk_size words) = words"
    by (rule concat_chunks) (simp add: chunk_size_def)
  have small: "calculate_ttr words = 0" if "length words \<le> 100"
  proof -
    have "\<not> 100 < length c" if "c \<in> set (chunks chunk_size words)" for c
      using chunks_lengths[OF that] \<open>length words \<le> 100\<close> by linarith
    then have "filter (\<lambda>chunk. 100 < length chunk) (chunks chunk_size words) = []"
      by (simp add: filter_empty_conv)
    then show ?thesis by (simp add: eq mean_def)
  qed
  show ?thesis
    using eq cat small chunks_butlast_full[of _ chunk_size words]
      chunks_lengths[of _ chunk_size words]
    by (auto simp: chunk_size_def)
qed

theorem calculate_ttr_chunk_mean_witness:
  "calculate_ttr (replicate 101 ''w'') = 1 / 101"
proof -
  have "calculate_ttr (replicate 101 ''w'') =
     mean (map chunk_ttr (filter (\<lambda>chunk. 100 < length chunk)
                            (chunks chunk_size (replicate 101 ''w''))))"
    using calculate_ttr_chunk_mean[of "replicate 101 ''w''"] by blast
  also have "\<dots> = 1 / 101" by code_simp
  finally show ?thesis .
qed

section \<open>Tallies and their order\<close>

lemma Counter_snoc: "Counter (ws @ [w]) = counter_add w (Counter ws)"
  by (simp add: Counter_def)

lemma keys_counter_add:
  "map fst (counter_add w d) = (if w \<in> fst ` set d then map fst d else map fst d @ [w])"
  by (induction w d rule: counter_add.induct) auto

lemma map_of_counter_add:
  "map_of (counter_add w d) k =
     (if k = w then Some (Suc (dict_get d w)) else map_of d k)"
  by (induction w d rule: counter_add.induct) (auto simp: dict_get_def)

lemma dict_get_counter_add:
  "dict_get (counter_add w d) k = (if k = w then Suc (dict_get d w) else dict_get d k)"
  by (simp add: dict_get_def map_of_counter_add)

lemma sum_counter_add:
  "sum_list (map snd (counter_add w d)) = Suc (sum_list (map snd d))"
  by (induction w d rule: counter_add.induct) auto

lemma keys_Counter: "fst ` set (Counter ws) = set ws"
proof (induction ws rule: rev_induct)
  case Nil
  then show ?case by (simp add: Counter_def)
next
  case (snoc w ws)
  have "set (map fst (Counter (ws @ [w]))) = insert w (set ws)"
    unfolding Counter_snoc keys_counter_add using snoc by auto
  then show ?case by simp
qed

lemma distinct_Counter: "distinct (map fst (Counter ws))"
proof (induction ws rule: rev_induct)
  case Nil
  then show ?case by (simp add: Counter_def)
next
  case (snoc w ws)
  then show ?case
    unfolding Counter_snoc keys_counter_add by auto
qed

lemma dict_get_Counter: "dict_get (Counter ws) w = count_list ws w"
proof (induction ws rule: rev_induct)
  case Nil
  then show ?case by (simp add: Counter_def dict_get_def)
next
  case (snoc x ws)
  then show ?case
    by (auto simp add: Counter_snoc dict_get_counter_add)
qed

lemma Counter_counts:
  assumes "(w, c) \<in> set (Counter ws)"
  shows "c = count_list ws w \<and> w \<in> set ws \<and> 0 < c"
proof -
  have "map_of (Counter ws) w = Some c"
    using assms by (simp add: map_of_eq_Some_iff[OF distinct_Counter])
  then have c: "c = count_list ws w"
    using dict_get_Counter[of ws w] by (simp add: dict_get_def)
  have w: "w \<in> set ws" using assms keys_Counter[of ws] by force
  then have "0 < count_list ws w" by (induction ws) auto
  with c w show ?thesis by simp
qed

lemma first_pos_snoc:
  "first_pos (ws @ [x]) w = (if w \<in> set ws then first_pos ws w else if w = x then length ws else Suc (length ws))"
  by (auto simp: first_pos_def takeWhile_append)

lemma first_pos_less: "w \<in> set ws \<Longrightarrow> first_pos ws w < length ws"
  unfolding first_pos_def by (induction ws) auto

lemma Counter_first_order:
  "sorted_wrt (\<lambda>a b. first_pos ws (fst a) < first_pos ws (fst b)) (Counter ws)"
proof (induction ws rule: rev_induct)
  case Nil
  then show ?case by (simp add: Counter_def)
next
  case (snoc x ws)
  let ?P = "\<lambda>zs a b. first_pos zs (fst a) < first_pos zs (fst b)"
  have keep: "sorted_wrt (?P (ws @ [x])) (Counter ws)"
  proof (rule sorted_wrt_mono_rel[OF _ snoc])
    fix a b assume "a \<in> set (Counter ws)" "b \<in> set (Counter ws)" "?P ws a b"
    moreover from this have "fst a \<in> set ws" "fst b \<in> set ws"
      using keys_Counter[of ws] by force+
    ultimately show "?P (ws @ [x]) a b" by (simp add: first_pos_snoc)
  qed
  show ?case
  proof (cases "x \<in> set ws")
    case True
    then have "x \<in> fst ` set (Counter ws)" by (simp add: keys_Counter)
    have "map fst (counter_add x (Counter ws)) = map fst (Counter ws)"
      using True by (simp add: keys_counter_add keys_Counter)
    moreover have "sorted_wrt (\<lambda>a b. first_pos (ws @ [x]) a < first_pos (ws @ [x]) b) (map fst (Counter ws))"
      using keep by (simp add: sorted_wrt_map)
    ultimately have "sorted_wrt (\<lambda>a b. first_pos (ws @ [x]) a < first_pos (ws @ [x]) b)
        (map fst (counter_add x (Counter ws)))" by simp
    then show ?thesis by (simp add: sorted_wrt_map Counter_snoc)
  next
    case False
    have "map fst (counter_add x (Counter ws)) = map fst (Counter ws) @ [x]"
      using False by (simp add: keys_counter_add keys_Counter)
    moreover have "sorted_wrt (\<lambda>a b. first_pos (ws @ [x]) a < first_pos (ws @ [x]) b) (map fst (Counter ws) @ [x])"
    proof -
      have "\<forall>k \<in> set (map fst (Counter ws)). first_pos (ws @ [x]) k < first_pos (ws @ [x]) x"
        using False keys_Counter[of ws] by (auto simp: first_pos_snoc first_pos_less)
      then show ?thesis using keep by (simp add: sorted_wrt_append sorted_wrt_map)
    qed
    ultimately have "sorted_wrt (\<lambda>a b. first_pos (ws @ [x]) a < first_pos (ws @ [x]) b)
        (map fst (counter_add x (Counter ws)))" by simp
    then show ?thesis by (simp add: sorted_wrt_map Counter_snoc)
  qed
qed


lemma sorted_wrt_insort_key:
  fixes f :: "'a \<Rightarrow> int"
  assumes "sorted_wrt R ys" "sorted (map f ys)"
    "\<And>y. y \<in> set ys \<Longrightarrow> f x \<le> f y \<Longrightarrow> R x y"
    "\<And>y. y \<in> set ys \<Longrightarrow> f y < f x \<Longrightarrow> R y x"
  shows "sorted_wrt R (insort_key f x ys)"
  using assms
proof (induction ys)
  case Nil
  then show ?case by simp
next
  case (Cons y ys)
  show ?case
  proof (cases "f x \<le> f y")
    case True
    have "R x z" if "z \<in> set (y # ys)" for z
    proof -
      have "f y \<le> f z" using Cons.prems(2) that by auto
      with True have "f x \<le> f z" by simp
      then show ?thesis using Cons.prems(3) that by blast
    qed
    then show ?thesis using True Cons.prems(1) by simp
  next
    case False
    then have "R y x" using Cons.prems(4) by simp
    moreover have "sorted_wrt R (insort_key f x ys)"
      using Cons.prems by (intro Cons.IH) auto
    ultimately show ?thesis using False Cons.prems(1) by (auto simp: set_insort_key)
  qed
qed

lemma sort_key_stable_order:
  fixes f :: "'a \<Rightarrow> int" and g :: "'a \<Rightarrow> nat"
  assumes "sorted_wrt (\<lambda>a b. g a < g b) xs"
  shows "sorted_wrt (\<lambda>a b. f a < f b \<or> (f a = f b \<and> g a < g b)) (sort_key f xs)"
  using assms
proof (induction xs)
  case Nil
  then show ?case by simp
next
  case (Cons x xs)
  have "sorted_wrt (\<lambda>a b. f a < f b \<or> (f a = f b \<and> g a < g b)) (insort_key f x (sort_key f xs))"
  proof (rule sorted_wrt_insort_key)
    show "sorted_wrt (\<lambda>a b. f a < f b \<or> (f a = f b \<and> g a < g b)) (sort_key f xs)"
      using Cons by simp
    show "sorted (map f (sort_key f xs))" by (rule sorted_sort_key)
  next
    fix y assume "y \<in> set (sort_key f xs)" "f x \<le> f y"
    moreover from this Cons.prems have "g x < g y" by simp
    ultimately show "f x < f y \<or> (f x = f y \<and> g x < g y)" by auto
  next
    fix y assume "y \<in> set (sort_key f xs)" "f y < f x"
    then show "f y < f x \<or> (f y = f x \<and> g y < g x)" by simp
  qed
  then show ?case by (simp add: sort_key_def)
qed

lemma most_common_length: "length (most_common n ws) = min n (card (set ws))"
proof -
  have "length (Counter ws) = card (set ws)"
    using distinct_card[OF distinct_Counter, of ws] keys_Counter[of ws] by simp
  then show ?thesis by (simp add: most_common_def sorted_by_count_desc_def min.commute)
qed

lemma most_common_counts:
  "(w, c) \<in> set (most_common n ws) \<Longrightarrow> c = count_list ws w \<and> w \<in> set ws \<and> 0 < c"
  by (rule Counter_counts) (auto simp: most_common_def sorted_by_count_desc_def dest: in_set_takeD)

lemma most_common_distinct: "distinct (map fst (most_common n ws))"
proof -
  have "distinct (sort_key (\<lambda>x. - int (snd x)) (Counter ws))"
    using distinct_Counter[of ws] by (simp add: distinct_map)
  moreover have "inj_on fst (set (sort_key (\<lambda>x. - int (snd x)) (Counter ws)))"
    using distinct_Counter[of ws] by (simp add: distinct_map)
  ultimately have "distinct (map fst (sort_key (\<lambda>x. - int (snd x)) (Counter ws)))"
    by (simp add: distinct_map)
  then show ?thesis
    by (simp add: most_common_def sorted_by_count_desc_def take_map[symmetric])
qed

lemma sorted_by_count_desc_sorted:
  "sorted_wrt (\<lambda>a b. snd b \<le> snd a) (sorted_by_count_desc items)"
proof -
  have "sorted (map (\<lambda>x. - int (snd x)) (sorted_by_count_desc items))"
    unfolding sorted_by_count_desc_def by (rule sorted_sort_key)
  then show ?thesis by (simp add: sorted_map sorted_wrt_iff_nth_less)
qed

lemma most_common_sorted: "sorted_wrt (\<lambda>a b. snd b \<le> snd a) (most_common n ws)"
  unfolding most_common_def by (rule sorted_wrt_take) (rule sorted_by_count_desc_sorted)

lemma most_common_order:
  "sorted_wrt (count_then_first (first_pos ws)) (most_common n ws)"
proof -
  have "sorted_wrt (\<lambda>a b. - int (snd a) < - int (snd b)
          \<or> (- int (snd a) = - int (snd b) \<and> first_pos ws (fst a) < first_pos ws (fst b)))
        (sort_key (\<lambda>x. - int (snd x)) (Counter ws))"
    by (rule sort_key_stable_order) (rule Counter_first_order)
  then have "sorted_wrt (count_then_first (first_pos ws)) (sorted_by_count_desc (Counter ws))"
    by (simp add: count_then_first_def[abs_def] sorted_by_count_desc_def)
  then show ?thesis unfolding most_common_def by (rule sorted_wrt_take)
qed

lemma take_sorted_top:
  assumes "x \<in> set items" "x \<notin> set (take n (sorted_by_count_desc items))"
    "y \<in> set (take n (sorted_by_count_desc items))"
  shows "snd x \<le> snd y"
proof -
  let ?S = "sorted_by_count_desc items"
  have "x \<in> set ?S" using assms(1) by (simp add: sorted_by_count_desc_def)
  then have "x \<in> set (take n ?S) \<or> x \<in> set (drop n ?S)"
    by (metis Un_iff append_take_drop_id set_append)
  with assms(2) have "x \<in> set (drop n ?S)" by simp
  moreover have "sorted_wrt (\<lambda>a b. snd b \<le> snd a) (take n ?S @ drop n ?S)"
    using sorted_by_count_desc_sorted[of items] by simp
  ultimately show ?thesis
    using assms(3) unfolding sorted_wrt_append by blast
qed

lemma most_common_top:
  assumes "w \<in> set ws" "w \<notin> fst ` set (most_common n ws)" "(p, c) \<in> set (most_common n ws)"
  shows "count_list ws w \<le> c"
proof -
  obtain d where d: "(w, d) \<in> set (Counter ws)"
    using assms(1) keys_Counter[of ws] by force
  then have dc: "d = count_list ws w" using Counter_counts by fastforce
  have "(w, d) \<notin> set (take n (sorted_by_count_desc (Counter ws)))"
    using assms(2) by (force simp: most_common_def)
  moreover have "(p, c) \<in> set (take n (sorted_by_count_desc (Counter ws)))"
    using assms(3) by (simp add: most_common_def)
  ultimately have "snd (w, d) \<le> snd (p, c)"
    by (rule take_sorted_top[OF d])
  then show ?thesis using dc by simp
qed

lemma first_pos_nth: "distinct ws \<Longrightarrow> i < length ws \<Longrightarrow> first_pos ws (ws ! i) = i"
proof (induction ws arbitrary: i)
  case Nil
  then show ?case by simp
next
  case (Cons w ws)
  show ?case
  proof (cases i)
    case 0
    then show ?thesis by (simp add: first_pos_def)
  next
    case (Suc j)
    with Cons.prems have "ws ! j \<in> set ws" "w \<notin> set ws" by auto
    then have "w \<noteq> ws ! j" by auto
    with Suc Cons show ?thesis by (simp add: first_pos_def)
  qed
qed

lemma first_pos_tagged:
  "distinct ws \<Longrightarrow> sorted_wrt (\<lambda>a b. first_pos ws (fst a) < first_pos ws (fst b)) (map (\<lambda>w. (w, f w)) ws)"
  by (simp add: sorted_wrt_map sorted_wrt_iff_nth_less first_pos_nth)

text \<open>
  Claim C7: the list \<^verbatim>\<open>comfort_words\<close> has at most 30 entries and \<^verbatim>\<open>favorite_phrases\<close>
  at most 20, and in both the counts do not increase from one entry to the next. This
  holds of what the two extractors return on every text, and so of the two fields of
  every record \<^verbatim>\<open>analyze_person\<close> returns.
\<close>

theorem top_lists_bounded_sorted:
  "length (get_comfort_words L txt 30) \<le> 30
   \<and> sorted_wrt (\<lambda>a b. snd b \<le> snd a) (get_comfort_words L txt 30)
   \<and> length (get_favorite_phrases L es n_gram) \<le> 20
   \<and> sorted_wrt (\<lambda>a b. snd b \<le> snd a) (get_favorite_phrases L es n_gram)
   \<and> (analyze_person L emails person_name = Inr r \<longrightarrow>
        length (comfort_words r) \<le> 30
        \<and> sorted_wrt (\<lambda>a b. snd b \<le> snd a) (comfort_words r)
        \<and> length (favorite_phrases r) \<le> 20
        \<and> sorted_wrt (\<lambda>a b. snd b \<le> snd a) (favorite_phrases r))"
  by (auto simp: get_comfort_words_def get_favorite_phrases_def most_common_length
      most_common_sorted analyze_person_def and_then_def Let_def split: sum.splits)

theorem top_lists_bounded_sorted_witness:
  "\<exists>r. analyze_person plain_libs [Str ''tall green tree tall green tree''] ''p'' = Inr r
       \<and> favorite_phrases r =
           [(''tall green tree'', 2), (''green tree tall'', 1), (''tree tall green'', 1)]
       \<and> length (comfort_words r) \<le> 30
       \<and> sorted_wrt (\<lambda>a b. snd b \<le> snd a) (comfort_words r)
       \<and> length (favorite_phrases r) \<le> 20
       \<and> sorted_wrt (\<lambda>a b. snd b \<le> snd a) (favorite_phrases r)"
proof -
  have "case analyze_person plain_libs [Str ''tall green tree tall green tree''] ''p'' of
          Inl e \<Rightarrow> False
        | Inr r \<Rightarrow> favorite_phrases r =
            [(''tall green tree'', 2), (''green tree tall'', 1), (''tree tall green'', 1)]"
    by code_simp
  then obtain r where
    r: "analyze_person plain_libs [Str ''tall green tree tall green tree''] ''p'' = Inr r"
       "favorite_phrases r =
          [(''tall green tree'', 2), (''green tree tall'', 1), (''tree tall green'', 1)]"
    by (auto split: sum.splits)
  with top_lists_bounded_sorted
         [of plain_libs _ _ _ "[Str ''tall green tree tall green tree'']" "''p''" r]
  show ?thesis by blast
qed

section \<open>Favorite phrases\<close>

lemma slice_Suc: "slice (Suc i) (Suc i + n) (x # xs) = slice i (i + n) xs"
  by (simp add: slice_def)

lemma index_windows: "map (\<lambda>i. slice i (i + 3) ws) [0 ..< length ws - 2] = windows3 ws"
proof (induction ws rule: windows3.induct)
  case (1 a b c r)
  have n: "length (a # b # c # r) - 2 = Suc (length r)" "length (b # c # r) - 2 = length r"
    by simp_all
  have "[0 ..< Suc (length r)] = 0 # map Suc [0 ..< length r]"
    by (simp add: map_Suc_upt upt_conv_Cons del: upt_Suc)
  then have "map (\<lambda>i. slice i (i + 3) (a # b # c # r)) [0 ..< length (a # b # c # r) - 2]
      = slice 0 3 (a # b # c # r)
        # map (\<lambda>i. slice (Suc i) (Suc i + 3) (a # b # c # r)) [0 ..< length (b # c # r) - 2]"
    unfolding n by (simp add: comp_def del: upt_Suc)
  also have "\<dots> = [a, b, c] # map (\<lambda>i. slice i (i + 3) (b # c # r)) [0 ..< length (b # c # r) - 2]"
    by (simp only: slice_Suc) (simp add: slice_def)
  finally show ?case using 1 by simp
qed (simp_all add: slice_def)

lemma concat_map_if:
  "concat (map (\<lambda>i. if P (w i) then [j (w i)] else []) is) = map j (filter P (map w is))"
  by (induction "is") auto

lemma email_phrases_windows:
  "email_phrases L 3 email =
     map (join '' '') (filter (substance L) (windows3 (word_tokenize L (lower email))))"
proof -
  let ?ws = "word_tokenize L (lower email)"
  have "email_phrases L 3 email =
      concat (map (\<lambda>i. if substance L (slice i (i + 3) ?ws)
                         then [join '' '' (slice i (i + 3) ?ws)] else [])
                  [0 ..< length ?ws - 2])"
    by (simp add: email_phrases_def Let_def)
  also have "\<dots> = map (join '' '')
      (filter (substance L) (map (\<lambda>i. slice i (i + 3) ?ws) [0 ..< length ?ws - 2]))"
    by (rule concat_map_if[of "substance L" "\<lambda>i. slice i (i + 3) ?ws" "join '' ''"])
  also have "\<dots> = map (join '' '') (filter (substance L) (windows3 ?ws))"
    by (simp only: index_windows)
  finally show ?thesis .
qed

lemma windows3_nth:
  "i + 2 < length ws \<Longrightarrow> windows3 ws ! i = [ws ! i, ws ! (i + 1), ws ! (i + 2)]"
proof (induction ws arbitrary: i rule: windows3.induct)
  case (1 a b c r)
  then show ?case by (cases i) auto
qed simp_all

lemma windows3_length: "length (windows3 ws) = length ws - 2"
  by (induction ws rule: windows3.induct) simp_all

text \<open>
  Claim C6: \<^verbatim>\<open>favorite_phrases\<close> is built from the windows of three consecutive tokens
  of each message on its own, the tokens being those of the lowercased message, a window
  written as its tokens joined by single spaces; a window counts exactly when each of its
  three tokens is no stopword or is one of "not", "very", "really"; and the result is
  the 20 phrases of the highest counts over all messages, in descending order of count:
  at most 20 distinct phrases, each with its number of occurrences among the phrases
  of all messages, and no phrase left out occurs more often than one that is listed.
\<close>

theorem favorite_phrases_trigrams:
  "email_phrases L 3 email =
     map (join '' '') (filter (substance L) (windows3 (word_tokenize L (lower email))))
   \<and> length (windows3 ws) = length ws - 2
   \<and> (\<forall>i. i + 2 < length ws \<longrightarrow> windows3 ws ! i = [ws ! i, ws ! (i + 1), ws ! (i + 2)])
   \<and> join '' '' [a, b, c] = a @ '' '' @ b @ '' '' @ c
   \<and> (substance L [a, b, c] \<longleftrightarrow>
        (a \<notin> stop_words L \<or> a \<in> {''not'', ''very'', ''really''})
        \<and> (b \<notin> stop_words L \<or> b \<in> {''not'', ''very'', ''really''})
        \<and> (c \<notin> stop_words L \<or> c \<in> {''not'', ''very'', ''really''}))
   \<and> all_phrases L emails 3 = concat (map (email_phrases L 3) emails)
   \<and> length (get_favorite_phrases L emails 3) = min 20 (card (set (all_phrases L emails 3)))
   \<and> distinct (map fst (get_favorite_phrases L emails 3))
   \<and> sorted_wrt (\<lambda>x y. snd y \<le> snd x) (get_favorite_phrases L emails 3)
   \<and> (\<forall>(p, n) \<in> set (get_favorite_phrases L emails 3).
         p \<in> set (all_phrases L emails 3) \<and> n = count_list (all_phrases L emails 3) p)
   \<and> (\<forall>q \<in> set (all_phrases L emails 3). q \<notin> fst ` set (get_favorite_phrases L emails 3) \<longrightarrow>
         (\<forall>(p, n) \<in> set (get_favorite_phrases L emails 3). count_list (all_phrases L emails 3) q \<le> n))"
proof (intro conjI)
  show "email_phrases L 3 email =
     map (join '' '') (filter (substance L) (windows3 (word_tokenize L (lower email))))"
    by (rule email_phrases_windows)
  show "length (windows3 ws) = length ws - 2" by (rule windows3_length)
  show "\<forall>i. i + 2 < length ws \<longrightarrow> windows3 ws ! i = [ws ! i, ws ! (i + 1), ws ! (i + 2)]"
    using windows3_nth by blast
  show "join '' '' [a, b, c] = a @ '' '' @ b @ '' '' @ c" by simp
  show "substance L [a, b, c] \<longleftrightarrow>
        (a \<notin> stop_words L \<or> a \<in> {''not'', ''very'', ''really''})
        \<and> (b \<notin> stop_words L \<or> b \<in> {''not'', ''very'', ''really''})
        \<and> (c \<notin> stop_words L \<or> c \<in> {''not'', ''very'', ''really''})"
    by (simp add: substance_def)
  show "all_phrases L emails 3 = concat (map (email_phrases L 3) emails)"
    by (simp add: all_phrases_def)
  show "length (get_favorite_phrases L emails 3) = min 20 (card (set (all_phrases L emails 3)))"
    by (simp add: get_favorite_phrases_def most_common_length)
  show "distinct (map fst (get_favorite_phrases L emails 3))"
    by (simp add: get_favorite_phrases_def most_common_distinct)
  show "sorted_wrt (\<lambda>x y. snd y \<le> snd x) (get_favorite_phrases L emails 3)"
    by (simp add: get_favorite_phrases_def most_common_sorted)
  show "\<forall>(p, n) \<in> set (get_favorite_phrases L emails 3).
         p \<in> set (all_phrases L emails 3) \<and> n = count_list (all_phrases L emails 3) p"
    using most_common_counts[of _ _ 20 "all_phrases L emails 3"]
    unfolding get_favorite_phrases_def by blast
  show "\<forall>q \<in> set (all_phrases L emails 3). q \<notin> fst ` set (get_favorite_phrases L emails 3) \<longrightarrow>
         (\<forall>(p, n) \<in> set (get_favorite_phrases L emails 3). count_list (all_phrases L emails 3) q \<le> n)"
    using most_common_top[of _ "all_phrases L emails 3" 20]
    unfolding get_favorite_phrases_def by blast
qed

theorem favorite_phrases_trigrams_witness:
  "email_phrases plain_libs 3 ''Not very Tall tree the tall tree''
     = [''not very tall'', ''very tall tree'']
   \<and> get_favorite_phrases plain_libs [''the tall tree'', ''not very tall tree not very tall''] 3
     = [(''not very tall'', 2), (''very tall tree'', 1), (''tall tree not'', 1),
        (''tree not very'', 1)]"
proof -
  have "email_phrases plain_libs 3 ''Not very Tall tree the tall tree'' =
     map (join '' '') (filter (substance plain_libs)
       (windows3 (word_tokenize plain_libs (lower ''Not very Tall tree the tall tree''))))"
    using favorite_phrases_trigrams[of plain_libs "''Not very Tall tree the tall tree''"]
    by blast
  also have "\<dots> = [''not very tall'', ''very tall tree'']"
    by code_simp
  finally have 1: "email_phrases plain_libs 3 ''Not very Tall tree the tall tree''
     = [''not very tall'', ''very tall tree'']" .
  have 2: "get_favorite_phrases plain_libs
        [''the tall tree'', ''not very tall tree not very tall''] 3
     = [(''not very tall'', 2), (''very tall tree'', 1), (''tall tree not'', 1),
        (''tree not very'', 1)]"
    by code_simp
  from 1 2 show ?thesis by (rule conjI)
qed

section \<open>Transition words\<close>

lemma usage_keys: "map fst (usage emails) = transitions"
  by (simp add: usage_def Let_def comp_def)

lemma usage_member:
  "(w, n) \<in> set (usage emails) \<longleftrightarrow> w \<in> set transitions \<and> n = str_count (lower (join '' '' emails)) w"
  by (auto simp: usage_def Let_def)

lemma distinct_keys_sorted:
  "distinct (map fst items) \<Longrightarrow> distinct (map fst (take n (sorted_by_count_desc items)))"
proof -
  assume d: "distinct (map fst items)"
  have "distinct (map fst (sort_key (\<lambda>x. - int (snd x)) items))"
    using d by (simp add: distinct_map)
  then show ?thesis
    by (simp add: sorted_by_count_desc_def take_map[symmetric])
qed

text \<open>
  Claim C9: the mapping \<^verbatim>\<open>transition_words\<close> always has exactly 5 entries, the 5 words
  of the highest counts among the 10 words of the fixed vocabulary; so a word that does
  not occur at all is among them whenever fewer than 5 of the words occur in the joined,
  lowercased text.
\<close>

theorem transition_words_five:
  "length transitions = 10
   \<and> distinct transitions
   \<and> length (get_transition_preferences emails) = 5
   \<and> distinct (map fst (get_transition_preferences emails))
   \<and> sorted_wrt (\<lambda>x y. snd y \<le> snd x) (get_transition_preferences emails)
   \<and> (\<forall>(w, n) \<in> set (get_transition_preferences emails).
         w \<in> set transitions \<and> n = str_count (lower (join '' '' emails)) w)
   \<and> (\<forall>q \<in> set transitions. q \<notin> fst ` set (get_transition_preferences emails) \<longrightarrow>
         (\<forall>(w, n) \<in> set (get_transition_preferences emails).
            str_count (lower (join '' '' emails)) q \<le> n))
   \<and> (length (filter (\<lambda>w. 0 < str_count (lower (join '' '' emails)) w) transitions) < 5 \<longrightarrow>
         (\<exists>w \<in> set transitions. (w, 0) \<in> set (get_transition_preferences emails)))"
proof (intro conjI)
  let ?R = "get_transition_preferences emails"
  let ?cnt = "\<lambda>w. str_count (lower (join '' '' emails)) w"
  show len10: "length transitions = 10" by (simp add: transitions_def)
  show dt: "distinct transitions" by (simp add: transitions_def)
  have "length (usage emails) = 10"
    using len10 usage_keys[of emails] by (metis length_map)
  then show len5: "length ?R = 5"
    by (simp add: get_transition_preferences_def sorted_by_count_desc_def)
  show dk: "distinct (map fst ?R)"
    unfolding get_transition_preferences_def
    by (rule distinct_keys_sorted) (simp add: usage_keys dt)
  show "sorted_wrt (\<lambda>x y. snd y \<le> snd x) ?R"
    unfolding get_transition_preferences_def
    by (rule sorted_wrt_take) (rule sorted_by_count_desc_sorted)
  have sub: "set ?R \<subseteq> set (usage emails)"
    by (auto simp: get_transition_preferences_def sorted_by_count_desc_def dest: in_set_takeD)
  then show mem: "\<forall>(w, n) \<in> set ?R. w \<in> set transitions \<and> n = ?cnt w"
    using usage_member[of _ _ emails] by blast
  show "\<forall>q \<in> set transitions. q \<notin> fst ` set ?R \<longrightarrow> (\<forall>(w, n) \<in> set ?R. ?cnt q \<le> n)"
  proof (intro ballI impI)
    fix q x assume q: "q \<in> set transitions" "q \<notin> fst ` set ?R" and x: "x \<in> set ?R"
    have "(q, ?cnt q) \<in> set (usage emails)" using q(1) by (simp add: usage_member)
    moreover have "(q, ?cnt q) \<notin> set (take 5 (sorted_by_count_desc (usage emails)))"
      using q(2) by (force simp: get_transition_preferences_def)
    moreover have "x \<in> set (take 5 (sorted_by_count_desc (usage emails)))"
      using x by (simp add: get_transition_preferences_def)
    ultimately have "snd (q, ?cnt q) \<le> snd x" by (rule take_sorted_top)
    then show "case x of (w, n) \<Rightarrow> ?cnt q \<le> n" by (simp add: case_prod_beta)
  qed
  show "length (filter (\<lambda>w. 0 < ?cnt w) transitions) < 5 \<longrightarrow>
         (\<exists>w \<in> set transitions. (w, 0) \<in> set ?R)"
  proof (rule impI, rule ccontr)
    assume few: "length (filter (\<lambda>w. 0 < ?cnt w) transitions) < 5"
      and none: "\<not> (\<exists>w \<in> set transitions. (w, 0) \<in> set ?R)"
    have "fst ` set ?R \<subseteq> set (filter (\<lambda>w. 0 < ?cnt w) transitions)"
    proof
      fix w assume "w \<in> fst ` set ?R"
      then obtain n where wn: "(w, n) \<in> set ?R" by force
      with mem have w: "w \<in> set transitions" "n = ?cnt w" by auto
      have "n \<noteq> 0"
      proof
        assume "n = 0"
        with wn w(1) none show False by blast
      qed
      then have "0 < ?cnt w" using w(2) by simp
      with w(1) show "w \<in> set (filter (\<lambda>w. 0 < ?cnt w) transitions)" by simp
    qed
    then have "card (fst ` set ?R) \<le> card (set (filter (\<lambda>w. 0 < ?cnt w) transitions))"
      by (simp add: card_mono)
    moreover have "card (fst ` set ?R) = 5"
      using distinct_card[OF dk] len5 by simp
    moreover have "card (set (filter (\<lambda>w. 0 < ?cnt w) transitions))
        \<le> length (filter (\<lambda>w. 0 < ?cnt w) transitions)"
      by (rule card_length)
    ultimately show False using few by linarith
  qed
qed

theorem transition_words_five_witness:
  "get_transition_preferences [''However, it works. Otherwise not; OTHERWISE later'']
     = [(''otherwise'', 2), (''however'', 1), (''therefore'', 0), (''moreover'', 0),
        (''furthermore'', 0)]
   \<and> length (get_transition_preferences
               [''However, it works. Otherwise not; OTHERWISE later'']) = 5"
proof -
  have "get_transition_preferences [''However, it works. Otherwise not; OTHERWISE later'']
     = [(''otherwise'', 2), (''however'', 1), (''therefore'', 0), (''moreover'', 0),
        (''furthermore'', 0)]"
    by code_simp
  moreover have "length (get_transition_preferences
               [''However, it works. Otherwise not; OTHERWISE later'']) = 5"
    using transition_words_five[of "[''However, it works. Otherwise not; OTHERWISE later'']"]
    by blast
  ultimately show ?thesis by (rule conjI)
qed

section \<open>Greetings and signatures\<close>

lemma greeting_scan_first:
  "greeting_scan ps s g = foldl (\<lambda>d w. counter_add w d) g (first_match ps s)"
  by (induction ps s g rule: greeting_scan.induct) (auto simp: first_match_def)

lemma signature_scan_all:
  "signature_scan ps s g = foldl (\<lambda>d w. counter_add w d) g (all_matches ps s)"
  by (induction ps s g rule: signature_scan.induct) (auto simp: all_matches_def)

lemma foldl_tally:
  "foldl (\<lambda>g e. foldl (\<lambda>d w. counter_add w d) g (f e)) g0 es
     = foldl (\<lambda>d w. counter_add w d) g0 (concat (map f es))"
  by (induction es arbitrary: g0) simp_all

lemma analyze_greetings_Counter:
  "analyze_greetings emails =
     Counter (concat (map (\<lambda>e. first_match greeting_patterns (strip (lower e))) emails))"
  by (simp add: analyze_greetings_def greeting_scan_first foldl_tally Counter_def)

lemma analyze_signatures_Counter:
  "analyze_signatures emails =
     Counter (concat (map (\<lambda>e. all_matches signature_patterns (signature_lines e)) emails))"
  by (simp add: analyze_signatures_def signature_scan_all foldl_tally Counter_def)

lemma count_list_concat:
  "count_list (concat xss) x = sum_list (map (\<lambda>xs. count_list xs x) xss)"
  by (induction xss) simp_all

lemma sum_indicator: "sum_list (map (\<lambda>e. if P e then 1 else 0) es) = length (filter P es)"
  by (induction es) simp_all

lemma sum_Counter: "sum_list (map snd (Counter ws)) = length ws"
  by (induction ws rule: rev_induct) (simp_all add: Counter_snoc sum_counter_add, simp add: Counter_def)

lemma count_list_distinct:
  "distinct xs \<Longrightarrow> count_list xs x = (if x \<in> set xs then 1 else 0)"
  by (induction xs) auto

lemma first_match_short: "length (first_match ps s) \<le> 1"
  by (simp add: first_match_def)

lemma count_first_match:
  "count_list (first_match ps s) style = (if first_match ps s = [style] then 1 else 0)"
proof (cases "first_match ps s")
  case Nil
  then show ?thesis by simp
next
  case (Cons a r)
  with first_match_short[of ps s] have "r = []" by simp
  with Cons show ?thesis by simp
qed

lemma length_first_match:
  "length (first_match ps s) = (if first_match ps s \<noteq> [] then 1 else 0)"
  using first_match_short[of ps s] by (cases "first_match ps s") auto

lemma distinct_all_matches:
  "distinct (all_matches signature_patterns s)"
proof -
  have "distinct (map snd signature_patterns)" by (simp add: signature_patterns_def)
  then show ?thesis unfolding all_matches_def by (rule distinct_map_filter)
qed

lemma last_n_three: "last_n 3 xs = last_three xs"
proof (induction xs rule: last_three.induct)
  case (1 a b c d r)
  have "last_n 3 (a # b # c # d # r) = last_n 3 (b # c # d # r)"
    by (simp add: last_n_def)
  with 1 show ?case by simp
qed (simp_all add: last_n_def)

lemma last_n_three_append: "last_n 3 (pre @ [a, b, c]) = [a, b, c]"
  by (simp add: last_n_def)

lemma last_n_short: "length xs \<le> n \<Longrightarrow> last_n n xs = xs"
  by (simp add: last_n_def)

lemma split_char_nonempty: "split_char d s \<noteq> []"
  by (induction s) (auto split: list.splits)

lemma join_split_char: "join [d] (split_char d s) = s"
proof (induction s)
  case Nil
  then show ?case by simp
next
  case (Cons c s)
  show ?case
  proof (cases "c = d")
    case True
    obtain l ls where "split_char d s = l # ls"
      using split_char_nonempty[of d s] by (cases "split_char d s") auto
    with True Cons show ?thesis by simp
  next
    case False
    obtain l ls where e: "split_char d s = l # ls"
      using split_char_nonempty[of d s] by (cases "split_char d s") auto
    with False Cons show ?thesis by (cases ls) auto
  qed
qed

lemma split_char_lines: "l \<in> set (split_char d s) \<Longrightarrow> d \<notin> set l"
proof (induction s arbitrary: l)
  case Nil
  then show ?case by simp
next
  case (Cons c s)
  obtain m ms where e: "split_char d s = m # ms"
    using split_char_nonempty[of d s] by (cases "split_char d s") auto
  show ?case
  proof (cases "c = d")
    case True
    with Cons.prems have "l = [] \<or> l \<in> set (split_char d s)" by simp
    then show ?thesis using Cons.IH by auto
  next
    case False
    with Cons.prems e have "l = c # m \<or> l \<in> set ms" by simp
    then show ?thesis
    proof
      assume "l = c # m"
      moreover have "d \<notin> set m" using Cons.IH[of m] e by simp
      ultimately show ?thesis using False by auto
    next
      assume "l \<in> set ms"
      then show ?thesis using Cons.IH[of l] e by simp
    qed
  qed
qed

lemma signature_lines_short:
  "length (split_char (CHR 0x0A) (strip email)) \<le> 3 \<Longrightarrow>
   signature_lines email = lower (join '' '' (split_char (CHR 0x0A) (strip email)))"
  by (simp add: signature_lines_def last_n_short)

lemma signature_lines_spec: "signature_lines email = spec_signature_lines (strip email)"
  by (simp add: signature_lines_def spec_signature_lines_def last_n_three)

lemma signature_lines_last_three:
  "split_char (CHR 0x0A) (strip email) = pre @ [a, b, c] \<Longrightarrow>
   signature_lines email = lower (a @ '' '' @ b @ '' '' @ c)"
  by (simp add: signature_lines_def last_n_three_append)

lemma analyze_signatures_spec:
  "analyze_signatures emails = spec_analyze_signatures (map strip emails)"
  by (simp add: analyze_signatures_Counter spec_analyze_signatures_def comp_def
      signature_lines_spec)

text \<open>
  Claim C5 says that the classification of greetings is exclusive and that of
  signatures cumulative, the latter on each message's last three lines, joined and
  lowercased. The code takes the last three lines of \<^verbatim>\<open>email.strip()\<close>: a message that
  ends in blank lines is classified by the lines before them, which are not the last
  three lines of the message.
\<close>

theorem signatures_of_unstripped_message_counterexample:
  "analyze_signatures [''Best'' @ [CHR 0x0A] @ ''x'' @ [CHR 0x0A] @ ''y'' @ [CHR 0x0A, CHR 0x0A]]
     = [(''formal'', 1)]
   \<and> split_char (CHR 0x0A) (''Best'' @ [CHR 0x0A] @ ''x'' @ [CHR 0x0A] @ ''y'' @ [CHR 0x0A, CHR 0x0A])
     = [''Best'', ''x'', ''y'', '''', '''']
   \<and> spec_signature_lines (''Best'' @ [CHR 0x0A] @ ''x'' @ [CHR 0x0A] @ ''y'' @ [CHR 0x0A, CHR 0x0A])
     = ''y  ''
   \<and> spec_analyze_signatures
       [''Best'' @ [CHR 0x0A] @ ''x'' @ [CHR 0x0A] @ ''y'' @ [CHR 0x0A, CHR 0x0A]] = []"
  by code_simp

text \<open>
  Claim C5 as amended: the classification of greetings is exclusive and that of
  signatures is cumulative. Each message, lowercased and stripped, is tested against the
  greeting patterns in their order (informal, formal, time_based, name_only) and adds
  one to the category of the first pattern that matches, and to none when no pattern
  matches: the tally of a category is the number of messages whose first match it is,
  and the tallies add up to the number of messages with a match. The last three lines
  of each message stripped of its leading and trailing whitespace (all its lines when
  there are fewer), joined by single spaces and lowercased, add one to every signature
  category (formal, grateful, casual, minimal) whose pattern is found: the tally of a
  category is the number of messages in which its pattern is found, and the tallies
  add up to the number of patterns found, message by message.
\<close>

theorem greetings_first_match_signatures_all_matches:
  "analyze_greetings emails =
     Counter (concat (map (\<lambda>e. first_match greeting_patterns (strip (lower e))) emails))
   \<and> map snd greeting_patterns = [''informal'', ''formal'', ''time_based'', ''name_only'']
   \<and> length (first_match greeting_patterns (strip (lower email))) \<le> 1
   \<and> dict_get (analyze_greetings emails) style =
       length (filter (\<lambda>e. first_match greeting_patterns (strip (lower e)) = [style]) emails)
   \<and> sum_list (map snd (analyze_greetings emails)) =
       length (filter (\<lambda>e. first_match greeting_patterns (strip (lower e)) \<noteq> []) emails)
   \<and> analyze_signatures emails =
       Counter (concat (map (\<lambda>e. all_matches signature_patterns (signature_lines e)) emails))
   \<and> map snd signature_patterns = [''formal'', ''grateful'', ''casual'', ''minimal'']
   \<and> join [CHR 0x0A] (split_char (CHR 0x0A) (strip email)) = strip email
   \<and> (\<forall>l \<in> set (split_char (CHR 0x0A) (strip email)). CHR 0x0A \<notin> set l)
   \<and> (\<forall>pre a b c. split_char (CHR 0x0A) (strip email) = pre @ [a, b, c] \<longrightarrow>
         signature_lines email = lower (a @ '' '' @ b @ '' '' @ c))
   \<and> (length (split_char (CHR 0x0A) (strip email)) \<le> 3 \<longrightarrow>
         signature_lines email = lower (join '' '' (split_char (CHR 0x0A) (strip email))))
   \<and> signature_lines email = spec_signature_lines (strip email)
   \<and> analyze_signatures emails = spec_analyze_signatures (map strip emails)
   \<and> dict_get (analyze_signatures emails) style =
       length (filter (\<lambda>e. style \<in> set (all_matches signature_patterns (signature_lines e))) emails)
   \<and> sum_list (map snd (analyze_signatures emails)) =
       sum_list (map (\<lambda>e. length (all_matches signature_patterns (signature_lines e))) emails)"
proof (intro conjI)
  show "analyze_greetings emails =
     Counter (concat (map (\<lambda>e. first_match greeting_patterns (strip (lower e))) emails))"
    by (rule analyze_greetings_Counter)
  show "map snd greeting_patterns = [''informal'', ''formal'', ''time_based'', ''name_only'']"
    by (simp add: greeting_patterns_def)
  show "length (first_match greeting_patterns (strip (lower email))) \<le> 1"
    by (rule first_match_short)
  show "dict_get (analyze_greetings emails) style =
       length (filter (\<lambda>e. first_match greeting_patterns (strip (lower e)) = [style]) emails)"
    by (simp add: analyze_greetings_Counter dict_get_Counter count_list_concat comp_def
        count_first_match sum_indicator)
  show "sum_list (map snd (analyze_greetings emails)) =
       length (filter (\<lambda>e. first_match greeting_patterns (strip (lower e)) \<noteq> []) emails)"
    by (simp add: analyze_greetings_Counter sum_Counter length_concat comp_def
        length_first_match sum_indicator)
  show "analyze_signatures emails =
       Counter (concat (map (\<lambda>e. all_matches signature_patterns (signature_lines e)) emails))"
    by (rule analyze_signatures_Counter)
  show "map snd signature_patterns = [''formal'', ''grateful'', ''casual'', ''minimal'']"
    by (simp add: signature_patterns_def)
  show "join [CHR 0x0A] (split_char (CHR 0x0A) (strip email)) = strip email"
    by (rule join_split_char)
  show "\<forall>l \<in> set (split_char (CHR 0x0A) (strip email)). CHR 0x0A \<notin> set l"
    using split_char_lines by blast
  show "\<forall>pre a b c. split_char (CHR 0x0A) (strip email) = pre @ [a, b, c] \<longrightarrow>
         signature_lines email = lower (a @ '' '' @ b @ '' '' @ c)"
    using signature_lines_last_three by blast
  show "length (split_char (CHR 0x0A) (strip email)) \<le> 3 \<longrightarrow>
         signature_lines email = lower (join '' '' (split_char (CHR 0x0A) (strip email)))"
    using signature_lines_short by blast
  show "signature_lines email = spec_signature_lines (strip email)"
    by (rule signature_lines_spec)
  show "analyze_signatures emails = spec_analyze_signatures (map strip emails)"
    by (rule analyze_signatures_spec)
  show "dict_get (analyze_signatures emails) style =
       length (filter (\<lambda>e. style \<in> set (all_matches signature_patterns (signature_lines e))) emails)"
    by (simp add: analyze_signatures_Counter dict_get_Counter count_list_concat comp_def
        count_list_distinct[OF distinct_all_matches] sum_indicator)
  show "sum_list (map snd (analyze_signatures emails)) =
       sum_list (map (\<lambda>e. length (all_matches signature_patterns (signature_lines e))) emails)"
    by (simp add: analyze_signatures_Counter sum_Counter length_concat comp_def)
qed

theorem greetings_first_match_signatures_all_matches_witness:
  "dict_get (analyze_greetings [''Hi Sarah, how are you?'', ''Dear Mr. Smith,'', ''no greeting'',
                                ''  hello   there''])
            ''informal'' = 2
   \<and> dict_get (analyze_signatures
                [''Thanks for the file'' @ [CHR 0x0A] @ ''It is fine.'' @ [CHR 0x0A] @ ''See you.''
                   @ [CHR 0x0A] @ ''Best regards'',
                 ''See you.'' @ [CHR 0x0A] @ ''Thanks and best regards''])
            ''grateful'' = 1
   \<and> dict_get (analyze_signatures
                [''Thanks for the file'' @ [CHR 0x0A] @ ''It is fine.'' @ [CHR 0x0A] @ ''See you.''
                   @ [CHR 0x0A] @ ''Best regards'',
                 ''See you.'' @ [CHR 0x0A] @ ''Thanks and best regards''])
            ''formal'' = 2
   \<and> signature_lines (''Thanks for the file'' @ [CHR 0x0A] @ ''It is fine.'' @ [CHR 0x0A]
                        @ ''See you.'' @ [CHR 0x0A] @ ''Best regards'')
       = ''it is fine. see you. best regards''"
proof -
  let ?E = "[''Hi Sarah, how are you?'', ''Dear Mr. Smith,'', ''no greeting'', ''  hello   there'']"
  let ?m = "''Thanks for the file'' @ [CHR 0x0A] @ ''It is fine.'' @ [CHR 0x0A] @ ''See you.''
              @ [CHR 0x0A] @ ''Best regards''"
  let ?S = "[?m, ''See you.'' @ [CHR 0x0A] @ ''Thanks and best regards'']"
  have "dict_get (analyze_greetings ?E) ''informal'' =
      length (filter (\<lambda>e. first_match greeting_patterns (strip (lower e)) = [''informal'']) ?E)"
    using greetings_first_match_signatures_all_matches[of ?E _ "''informal''"] by blast
  also have "\<dots> = 2" by code_simp
  finally have 1: "dict_get (analyze_greetings ?E) ''informal'' = 2" .
  have "dict_get (analyze_signatures ?S) ''grateful'' =
      length (filter (\<lambda>e. ''grateful'' \<in> set (all_matches signature_patterns (signature_lines e))) ?S)"
    using greetings_first_match_signatures_all_matches[of ?S _ "''grateful''"] by blast
  also have "\<dots> = 1" by code_simp
  finally have 2: "dict_get (analyze_signatures ?S) ''grateful'' = 1" .
  have "dict_get (analyze_signatures ?S) ''formal'' =
      length (filter (\<lambda>e. ''formal'' \<in> set (all_matches signature_patterns (signature_lines e))) ?S)"
    using greetings_first_match_signatures_all_matches[of ?S _ "''formal''"] by blast
  also have "\<dots> = 2" by code_simp
  finally have 3: "dict_get (analyze_signatures ?S) ''formal'' = 2" .
  have sp: "split_char (CHR 0x0A) (strip ?m)
      = [''Thanks for the file''] @ [''It is fine.'', ''See you.'', ''Best regards'']"
    by code_simp
  have "signature_lines ?m = lower (''It is fine.'' @ '' '' @ ''See you.'' @ '' '' @ ''Best regards'')"
    using greetings_first_match_signatures_all_matches[of _ ?m] sp by blast
  also have "\<dots> = ''it is fine. see you. best regards''" by code_simp
  finally have 4: "signature_lines ?m = ''it is fine. see you. best regards''" .
  from 1 2 3 4 show ?thesis by simp
qed

lemma word_not_space: "is_word c \<Longrightarrow> \<not> is_space c"
  by (auto simp: is_word_def is_space_def is_AZ_def is_az_def is_digit_def)

lemma rx_many1_word: "rx_match [Many1 is_word] u = (case u of [] \<Rightarrow> False | c # _ \<Rightarrow> is_word c)"
  by (cases u) (auto simp: list_ex_iff)

lemma rx_many0:
  "rx_match (Many0 C # r) s = (\<exists>k \<le> length (takeWhile C s). rx_match r (drop k s))"
proof -
  have "set [0 ..< Suc (length (takeWhile C s))] = {k. k \<le> length (takeWhile C s)}"
    by auto
  then show ?thesis
    unfolding rx_match.simps list_ex_iff by blast
qed

lemma takeWhile_holds: "k < length (takeWhile C s) \<Longrightarrow> C (s ! k)"
  by (metis nth_mem set_takeWhileD takeWhile_nth)

lemma rx_space_word:
  "rx_match [Many0 is_space, Many1 is_word] t =
     (case dropWhile is_space t of [] \<Rightarrow> False | c # _ \<Rightarrow> is_word c)"
proof -
  let ?n = "length (takeWhile is_space t)"
  let ?P = "\<lambda>u. case u of [] \<Rightarrow> False | c # _ \<Rightarrow> is_word c"
  have d: "dropWhile is_space t = drop ?n t" by (rule dropWhile_eq_drop)
  have "(\<exists>k \<le> ?n. ?P (drop k t)) = ?P (drop ?n t)"
  proof
    assume "\<exists>k \<le> ?n. ?P (drop k t)"
    then obtain k where k: "k \<le> ?n" "?P (drop k t)" by blast
    have "\<not> k < ?n"
    proof
      assume lt: "k < ?n"
      then have sp: "is_space (t ! k)" by (rule takeWhile_holds)
      have "k < length t" using lt length_takeWhile_le[of is_space t] by linarith
      then have "drop k t = t ! k # drop (Suc k) t" by (simp add: Cons_nth_drop_Suc)
      with k(2) have "is_word (t ! k)" by simp
      with sp word_not_space show False by blast
    qed
    with k(1) have "k = ?n" by simp
    with k(2) show "?P (drop ?n t)" by simp
  next
    assume "?P (drop ?n t)"
    then show "\<exists>k \<le> ?n. ?P (drop k t)" by blast
  qed
  then show ?thesis
    unfolding rx_many0 rx_many1_word d .
qed

lemma rx_minimal:
  "rx_match [Lits [''-''], Many0 is_space, Many1 is_word] s = starts_dash_word s"
proof (cases s)
  case Nil
  then show ?thesis by simp
next
  case (Cons c rest)
  have "rx_match [Lits [''-''], Many0 is_space, Many1 is_word] (c # rest) =
      (c = CHR ''-'' \<and> rx_match [Many0 is_space, Many1 is_word] rest)"
    by simp
  then show ?thesis using Cons by (simp only: rx_space_word starts_dash_word.simps)
qed

lemma minimal_in_matches:
  "''minimal'' \<in> set (all_matches signature_patterns s) \<longleftrightarrow> starts_dash_word s"
proof -
  have "''minimal'' \<in> set (all_matches signature_patterns s) \<longleftrightarrow>
      re_search (Regex True [Lits [''-''], Many0 is_space, Many1 is_word]) s"
    by (auto simp: all_matches_def signature_patterns_def)
  then show ?thesis by (simp only: re_search.simps rx_minimal if_True)
qed

lemma lower_char_dash: "lower_char c = CHR ''-'' \<longleftrightarrow> c = CHR ''-''"
  by (auto simp: lower_char_def split: option.splits if_splits)

lemma join_Cons: "join sep (x # xs) = x @ (if xs = [] then [] else sep @ join sep xs)"
  by (cases xs) simp_all

lemma dash_word_first_line:
  assumes "starts_dash_word (lower (join '' '' (l # ls)))"
  shows "\<exists>r. l = CHR ''-'' # r"
proof (cases l)
  case Nil
  with assms show ?thesis
    by (cases "ls = []") (simp_all add: join_Cons lower_def lower_char_def)
next
  case (Cons c r)
  with assms have "lower_char c = CHR ''-''" by (simp add: join_Cons lower_def)
  then show ?thesis using Cons by (simp add: lower_char_dash)
qed

text \<open>
  Claim C10 says that "minimal" is counted only when the dash-then-word pattern stands
  at the very start of the joined last three lines (the start of the third-to-last
  line, or of the whole message when it has at most three lines), and that a final
  line led by a dash and preceded by other non-empty lines within the last three is
  not counted. Messages whose lines all start with a dash, or whose last three lines
  are the items of a dashed list, have such a final line and are counted; and the
  lines are those of the stripped message, so a dash after leading blanks is counted
  too.
\<close>

theorem minimal_counted_with_dash_led_final_line_counterexample:
  "split_char (CHR 0x0A) (''-x'' @ [CHR 0x0A] @ ''-y'') = [''-x'', ''-y'']
   \<and> dict_get (analyze_signatures [''-x'' @ [CHR 0x0A] @ ''-y'']) ''minimal'' = 1
   \<and> split_char (CHR 0x0A)
        (''Agenda:'' @ [CHR 0x0A] @ ''- item one'' @ [CHR 0x0A] @ ''- item two'' @ [CHR 0x0A]
           @ ''- item three'')
      = [''Agenda:'', ''- item one'', ''- item two'', ''- item three'']
   \<and> dict_get (analyze_signatures
                 [''Agenda:'' @ [CHR 0x0A] @ ''- item one'' @ [CHR 0x0A] @ ''- item two''
                    @ [CHR 0x0A] @ ''- item three''])
            ''minimal'' = 1
   \<and> spec_signature_lines ''  - John'' = ''  - john''
   \<and> dict_get (analyze_signatures [''  - John'']) ''minimal'' = 1"
  by code_simp

text \<open>
  Claim C10 as amended: "minimal" is counted for a message exactly when a dash,
  optional whitespace and a word character stand at the very start of the last three
  lines of the stripped message (all its lines when there are fewer), joined by single
  spaces and lowercased. The first of these lines (the third-to-last line of the
  stripped message, or its first line when it has at most three) then starts with the
  dash; when it does not, the message is not counted, whatever its final line is.
\<close>

theorem minimal_at_start_of_stripped_last_lines:
  "dict_get (analyze_signatures emails) ''minimal'' =
     length (filter (\<lambda>e. starts_dash_word (signature_lines e)) emails)
   \<and> signature_lines email = spec_signature_lines (strip email)
   \<and> (\<forall>pre a b c. split_char (CHR 0x0A) (strip email) = pre @ [a, b, c] \<longrightarrow>
         signature_lines email = lower (a @ '' '' @ b @ '' '' @ c)
         \<and> (starts_dash_word (signature_lines email) \<longrightarrow> (\<exists>r. a = CHR ''-'' # r)))
   \<and> (\<forall>l ls. split_char (CHR 0x0A) (strip email) = l # ls \<and> length ls \<le> 2 \<longrightarrow>
         signature_lines email = lower (join '' '' (l # ls))
         \<and> (starts_dash_word (signature_lines email) \<longrightarrow> (\<exists>r. l = CHR ''-'' # r)))"
proof (intro conjI)
  show "dict_get (analyze_signatures emails) ''minimal'' =
     length (filter (\<lambda>e. starts_dash_word (signature_lines e)) emails)"
    by (simp add: analyze_signatures_Counter dict_get_Counter count_list_concat comp_def
        count_list_distinct[OF distinct_all_matches] sum_indicator minimal_in_matches)
  show "signature_lines email = spec_signature_lines (strip email)"
    by (rule signature_lines_spec)
  show "\<forall>pre a b c. split_char (CHR 0x0A) (strip email) = pre @ [a, b, c] \<longrightarrow>
         signature_lines email = lower (a @ '' '' @ b @ '' '' @ c)
         \<and> (starts_dash_word (signature_lines email) \<longrightarrow> (\<exists>r. a = CHR ''-'' # r))"
  proof (intro allI impI)
    fix pre a b c assume "split_char (CHR 0x0A) (strip email) = pre @ [a, b, c]"
    then have e: "signature_lines email = lower (join '' '' (a # [b, c]))"
      by (simp add: signature_lines_last_three)
    then have "signature_lines email = lower (a @ '' '' @ b @ '' '' @ c)" by simp
    moreover have "starts_dash_word (signature_lines email) \<longrightarrow> (\<exists>r. a = CHR ''-'' # r)"
      unfolding e using dash_word_first_line by blast
    ultimately show "signature_lines email = lower (a @ '' '' @ b @ '' '' @ c)
         \<and> (starts_dash_word (signature_lines email) \<longrightarrow> (\<exists>r. a = CHR ''-'' # r))"
      by (rule conjI)
  qed
  show "\<forall>l ls. split_char (CHR 0x0A) (strip email) = l # ls \<and> length ls \<le> 2 \<longrightarrow>
         signature_lines email = lower (join '' '' (l # ls))
         \<and> (starts_dash_word (signature_lines email) \<longrightarrow> (\<exists>r. l = CHR ''-'' # r))"
  proof (intro allI impI)
    fix l ls assume a: "split_char (CHR 0x0A) (strip email) = l # ls \<and> length ls \<le> 2"
    then have "length (split_char (CHR 0x0A) (strip email)) \<le> 3" by simp
    then have e: "signature_lines email = lower (join '' '' (l # ls))"
      using a by (simp add: signature_lines_short)
    moreover have "starts_dash_word (signature_lines email) \<longrightarrow> (\<exists>r. l = CHR ''-'' # r)"
      unfolding e using dash_word_first_line by blast
    ultimately show "signature_lines email = lower (join '' '' (l # ls))
         \<and> (starts_dash_word (signature_lines email) \<longrightarrow> (\<exists>r. l = CHR ''-'' # r))"
      by (rule conjI)
  qed
qed

theorem minimal_at_start_of_stripped_last_lines_witness:
  "dict_get (analyze_signatures [''Hello'' @ [CHR 0x0A] @ ''- John'', ''- John'',
                                 ''-'' @ [CHR 0x0A] @ ''John'',
                                 ''a'' @ [CHR 0x0A] @ ''b'' @ [CHR 0x0A] @ ''-c'' @ [CHR 0x0A] @ ''d''
                                   @ [CHR 0x0A] @ ''e'',
                                 ''- a'' @ [CHR 0x0A] @ ''b'' @ [CHR 0x0A] @ ''c'' @ [CHR 0x0A] @ ''d''])
            ''minimal'' = 3
   \<and> \<not> starts_dash_word (signature_lines (''Hello'' @ [CHR 0x0A] @ ''- John''))
   \<and> \<not> starts_dash_word (signature_lines
          (''- a'' @ [CHR 0x0A] @ ''b'' @ [CHR 0x0A] @ ''c'' @ [CHR 0x0A] @ ''d''))"
proof -
  let ?E = "[''Hello'' @ [CHR 0x0A] @ ''- John'', ''- John'', ''-'' @ [CHR 0x0A] @ ''John'',
             ''a'' @ [CHR 0x0A] @ ''b'' @ [CHR 0x0A] @ ''-c'' @ [CHR 0x0A] @ ''d''
               @ [CHR 0x0A] @ ''e'',
             ''- a'' @ [CHR 0x0A] @ ''b'' @ [CHR 0x0A] @ ''c'' @ [CHR 0x0A] @ ''d'']"
  have "dict_get (analyze_signatures ?E) ''minimal'' =
     length (filter (\<lambda>e. starts_dash_word (signature_lines e)) ?E)"
    using minimal_at_start_of_stripped_last_lines[of ?E] by blast
  also have "\<dots> = 3" by code_simp
  finally have 1: "dict_get (analyze_signatures ?E) ''minimal'' = 3" .
  have 2: "\<not> starts_dash_word (signature_lines (''Hello'' @ [CHR 0x0A] @ ''- John''))"
    by code_simp
  have 3: "\<not> starts_dash_word (signature_lines
          (''- a'' @ [CHR 0x0A] @ ''b'' @ [CHR 0x0A] @ ''c'' @ [CHR 0x0A] @ ''d''))"
    by code_simp
  from 1 2 3 show ?thesis by simp
qed

section \<open>The order of the results\<close>

text \<open>
  Claim C8: two calls of \<^verbatim>\<open>analyze_person\<close> on the same input return the same record,
  with the same order of the entries, and ties are broken in a stable way that does not
  depend on the iteration order of a hash table. The analyzer is a function of its
  input: it iterates over lists and insertion-ordered dicts only, and its sets are used
  for membership and size. The order of every sorted field is fixed by the input: the
  higher count comes first, and of two entries with the same count the one met first in
  the input (for \<^verbatim>\<open>transition_words\<close>, the one listed first in the vocabulary). This
  order is strict, so that it leaves one arrangement only. The keys of the mappings
  \<^verbatim>\<open>greeting_style\<close> and \<^verbatim>\<open>signature_style\<close> stand in the order in which the
  categories are first counted.
\<close>

theorem ordered_fields_determined:
  "sorted_wrt (count_then_first (first_pos (meaningful_words L txt))) (get_comfort_words L txt top_n)
   \<and> sorted_wrt (count_then_first (first_pos (all_phrases L emails n_gram)))
        (get_favorite_phrases L emails n_gram)
   \<and> sorted_wrt (count_then_first (first_pos (starters L emails))) (get_email_starters L emails)
   \<and> sorted_wrt (count_then_first (first_pos (closings L emails))) (get_email_closings L emails)
   \<and> sorted_wrt (count_then_first (first_pos transitions)) (get_transition_preferences emails)
   \<and> sorted_wrt
        (\<lambda>a b. first_pos (concat (map (\<lambda>e. first_match greeting_patterns (strip (lower e))) emails))
                  (fst a)
              < first_pos (concat (map (\<lambda>e. first_match greeting_patterns (strip (lower e))) emails))
                  (fst b))
        (analyze_greetings emails)
   \<and> sorted_wrt
        (\<lambda>a b. first_pos (concat (map (\<lambda>e. all_matches signature_patterns (signature_lines e)) emails))
                  (fst a)
              < first_pos (concat (map (\<lambda>e. all_matches signature_patterns (signature_lines e)) emails))
                  (fst b))
        (analyze_signatures emails)"
proof -
  have "distinct transitions" by (simp add: transitions_def)
  then have "sorted_wrt (\<lambda>a b. first_pos transitions (fst a) < first_pos transitions (fst b))
               (usage emails)"
    by (simp add: usage_def Let_def first_pos_tagged)
  then have "sorted_wrt (\<lambda>a b. - int (snd a) < - int (snd b)
          \<or> (- int (snd a) = - int (snd b)
              \<and> first_pos transitions (fst a) < first_pos transitions (fst b)))
        (sort_key (\<lambda>x. - int (snd x)) (usage emails))"
    by (rule sort_key_stable_order)
  then have "sorted_wrt (count_then_first (first_pos transitions))
               (sorted_by_count_desc (usage emails))"
    by (simp add: count_then_first_def[abs_def] sorted_by_count_desc_def)
  then have "sorted_wrt (count_then_first (first_pos transitions))
               (get_transition_preferences emails)"
    unfolding get_transition_preferences_def by (rule sorted_wrt_take)
  then show ?thesis
    by (simp add: get_comfort_words_def get_favorite_phrases_def get_email_starters_def
        get_email_closings_def most_common_order analyze_greetings_Counter
        analyze_signatures_Counter Counter_first_order)
qed

theorem ordered_fields_determined_witness:
  "get_comfort_words plain_libs ''delta alpha gamma alpha delta'' 2
     = [(''delta'', 2), (''alpha'', 2)]
   \<and> sorted_wrt
        (count_then_first (first_pos (meaningful_words plain_libs ''delta alpha gamma alpha delta'')))
        [(''delta'', 2), (''alpha'', 2)]"
proof -
  have e: "get_comfort_words plain_libs ''delta alpha gamma alpha delta'' 2
             = [(''delta'', 2), (''alpha'', 2)]"
    by code_simp
  have "sorted_wrt
          (count_then_first (first_pos (meaningful_words plain_libs ''delta alpha gamma alpha delta'')))
          (get_comfort_words plain_libs ''delta alpha gamma alpha delta'' 2)"
    using ordered_fields_determined[of plain_libs "''delta alpha gamma alpha delta''" 2] by blast
  with e show ?thesis by simp
qed

end
